theory Spec2Isabelle
  imports Complex_Main "HOL-Library.Word"
begin

section \<open>Machine types\<close>

text \<open>
  The C types of \<^verbatim>\<open>yuv_rgb.c\<close>: \<^verbatim>\<open>uint8_t\<close>, \<^verbatim>\<open>uint16_t\<close> and \<^verbatim>\<open>uint32_t\<close> are words
  (arithmetic wraps around); \<^verbatim>\<open>int8_t\<close> and \<^verbatim>\<open>int16_t\<close> are words read with \<open>sint\<close>.
  An expression of C type \<^verbatim>\<open>int\<close> (every operand of type \<^verbatim>\<open>uint8_t\<close>, \<^verbatim>\<open>int8_t\<close>,
  \<^verbatim>\<open>uint16_t\<close> or \<^verbatim>\<open>int16_t\<close> is promoted to it) is an \<open>int\<close>: it is a sum of at most
  three products of two operands below \<open>2 ^ 16\<close> in absolute value, so 32 bits never
  overflow.  A conversion to a narrower type is \<open>word_of_int\<close>, which reduces modulo
  \<open>2 ^ 8\<close> or \<open>2 ^ 16\<close>.  The right shift \<^verbatim>\<open>>>\<close> of an \<^verbatim>\<open>int\<close> is the arithmetic
  shift \<open>drop_bit\<close> (division by a power of two, rounded towards minus infinity).
\<close>

type_synonym u8 = "8 word"
type_synonym u16 = "16 word"
type_synonym u32 = "32 word"
type_synonym i8 = "8 word"
type_synonym i16 = "16 word"

text \<open>\<^verbatim>\<open>uint8_t clamp(int16_t value)\<close>, lines 10-13.\<close>

definition clamp :: "i16 \<Rightarrow> u8" where
  "clamp v = (if sint v < 0 then 0 else (if sint v > 255 then 255 else word_of_int (sint v)))"

section \<open>Colorimetry parameter tables\<close>

text \<open>
  \<^verbatim>\<open>#define FIXED_POINT_VALUE(value, precision) ((int)(((value)*(1<<precision))+0.5))\<close>.
  The C compiler folds the macro in \<^verbatim>\<open>double\<close> arithmetic; the model evaluates it on
  the reals.  The conversion \<^verbatim>\<open>(int)\<close> truncates towards zero (\<open>c_int\<close>).  Lemmas
  \<open>RGB2YUV_margin\<close> and \<open>YUV2RGB_margin\<close> below show that every table entry is the same
  when the scaled argument is moved by \<open>1 / 100\<close> in either direction, which is far more
  than the rounding error of a handful of \<^verbatim>\<open>double\<close> operations on values below
  \<open>2 ^ 9\<close>; so the exact evaluation and the compiler's agree.
\<close>

definition c_int :: "real \<Rightarrow> int" where
  "c_int x = (if 0 \<le> x then \<lfloor>x\<rfloor> else \<lceil>x\<rceil>)"

definition FIXED_POINT_VALUE :: "real \<Rightarrow> nat \<Rightarrow> int" where
  "FIXED_POINT_VALUE v precision = c_int (v * of_int (push_bit precision 1) + 0.5)"

record RGB2YUVParam =
  r_factor :: u8
  g_factor :: u8
  b_factor :: u8
  cb_factor :: u8
  cr_factor :: u8
  y_factor :: u8
  y_offset :: u8

record YUV2RGBParam =
  cb_factor :: u8
  cr_factor :: u8
  g_cb_factor :: u8
  g_cr_factor :: u8
  y_factor :: u8
  y_offset :: u8

text \<open>The macros \<^verbatim>\<open>RGB2YUV_PARAM\<close> and \<^verbatim>\<open>YUV2RGB_PARAM\<close>, lines 97-112.  Each
  initialiser is an \<^verbatim>\<open>int\<close> (for \<^verbatim>\<open>y_offset\<close> a \<^verbatim>\<open>double\<close>) stored in a
  \<^verbatim>\<open>uint8_t\<close> field.\<close>

definition RGB2YUV_PARAM :: "real \<Rightarrow> real \<Rightarrow> real \<Rightarrow> real \<Rightarrow> real \<Rightarrow> RGB2YUVParam" where
  "RGB2YUV_PARAM Rf Bf YMin YMax CbCrRange =
     \<lparr> r_factor = word_of_int (FIXED_POINT_VALUE Rf 8),
       g_factor = word_of_int (256 - FIXED_POINT_VALUE Rf 8 - FIXED_POINT_VALUE Bf 8),
       b_factor = word_of_int (FIXED_POINT_VALUE Bf 8),
       cb_factor = word_of_int (FIXED_POINT_VALUE ((CbCrRange / 255.0) / (2.0 * (1 - Bf))) 8),
       cr_factor = word_of_int (FIXED_POINT_VALUE ((CbCrRange / 255.0) / (2.0 * (1 - Rf))) 8),
       y_factor = word_of_int (FIXED_POINT_VALUE ((YMax - YMin) / 255.0) 7),
       y_offset = word_of_int (c_int YMin) \<rparr>"

definition YUV2RGB_PARAM :: "real \<Rightarrow> real \<Rightarrow> real \<Rightarrow> real \<Rightarrow> real \<Rightarrow> YUV2RGBParam" where
  "YUV2RGB_PARAM Rf Bf YMin YMax CbCrRange =
     \<lparr> cb_factor = word_of_int (FIXED_POINT_VALUE (255.0 * (2.0 * (1 - Bf)) / CbCrRange) 6),
       cr_factor = word_of_int (FIXED_POINT_VALUE (255.0 * (2.0 * (1 - Rf)) / CbCrRange) 6),
       g_cb_factor = word_of_int
         (FIXED_POINT_VALUE (Bf / (1.0 - Bf - Rf) * 255.0 * (2.0 * (1 - Bf)) / CbCrRange) 7),
       g_cr_factor = word_of_int
         (FIXED_POINT_VALUE (Rf / (1.0 - Bf - Rf) * 255.0 * (2.0 * (1 - Rf)) / CbCrRange) 7),
       y_factor = word_of_int (FIXED_POINT_VALUE (255.0 / (YMax - YMin)) 7),
       y_offset = word_of_int (c_int YMin) \<rparr>"

text \<open>Modelled from the spec: the enumeration \<^verbatim>\<open>YCbCrType\<close> is declared in
  \<^verbatim>\<open>yuv_rgb.h\<close>, which is not among the sources; section 6 of the specification gives
  its three values, 0 = FullRangeJPEG, 1 = BT601, 2 = BT709, which index the tables.\<close>

datatype YCbCrType = FullRangeJPEG | BT601 | BT709

text \<open>\<^verbatim>\<open>static const RGB2YUVParam RGB2YUV[3]\<close> and
  \<^verbatim>\<open>static const YUV2RGBParam YUV2RGB[3]\<close>, lines 114-130.\<close>

fun RGB2YUV :: "YCbCrType \<Rightarrow> RGB2YUVParam" where
  "RGB2YUV FullRangeJPEG = RGB2YUV_PARAM 0.299 0.114 0.0 255.0 255.0"
| "RGB2YUV BT601 = RGB2YUV_PARAM 0.299 0.114 16.0 235.0 224.0"
| "RGB2YUV BT709 = RGB2YUV_PARAM 0.2126 0.0722 16.0 235.0 224.0"

fun YUV2RGB :: "YCbCrType \<Rightarrow> YUV2RGBParam" where
  "YUV2RGB FullRangeJPEG = YUV2RGB_PARAM 0.299 0.114 0.0 255.0 255.0"
| "YUV2RGB BT601 = YUV2RGB_PARAM 0.299 0.114 16.0 235.0 224.0"
| "YUV2RGB BT709 = YUV2RGB_PARAM 0.2126 0.0722 16.0 235.0 224.0"

text \<open>The constants of each standard, as the table initialisers give them:
  red weight, blue weight, luma range and chroma excursion.\<close>

fun std_Rf :: "YCbCrType \<Rightarrow> real" where
  "std_Rf FullRangeJPEG = 0.299" | "std_Rf BT601 = 0.299" | "std_Rf BT709 = 0.2126"

fun std_Bf :: "YCbCrType \<Rightarrow> real" where
  "std_Bf FullRangeJPEG = 0.114" | "std_Bf BT601 = 0.114" | "std_Bf BT709 = 0.0722"

fun std_YMin :: "YCbCrType \<Rightarrow> real" where
  "std_YMin FullRangeJPEG = 0" | "std_YMin BT601 = 16" | "std_YMin BT709 = 16"

fun std_YMax :: "YCbCrType \<Rightarrow> real" where
  "std_YMax FullRangeJPEG = 255" | "std_YMax BT601 = 235" | "std_YMax BT709 = 235"

fun std_CbCrRange :: "YCbCrType \<Rightarrow> real" where
  "std_CbCrRange FullRangeJPEG = 255" | "std_CbCrRange BT601 = 224" | "std_CbCrRange BT709 = 224"

text \<open>The derivation of section 4.1 of the specification, in its words: every factor is
  the scaled real value rounded half up.\<close>

definition round_half_up :: "real \<Rightarrow> int" where
  "round_half_up x = \<lfloor>x + 1 / 2\<rfloor>"

section \<open>Image planes\<close>

text \<open>
  A plane is the caller's buffer, a list of bytes; a pointer into it is an offset.  An
  access outside the buffer is undefined behaviour in C and the fault \<open>OutOfBounds\<close>
  here.  The RGB buffer and the three planes Y, U and V are distinct objects (the
  conversions do not support aliasing buffers).
\<close>

datatype fault = OutOfBounds

record yuv_planes =
  Y_plane :: "u8 list"
  U_plane :: "u8 list"
  V_plane :: "u8 list"

section \<open>Forward conversion: \<^verbatim>\<open>rgb24_yuv420_std\<close>\<close>

text \<open>The four statements the loop body repeats for each pixel of a block (lines 158-161):
  \<^verbatim>\<open>y_tmp = (r_factor*R + g_factor*G + b_factor*B)>>8\<close>, stored in a \<^verbatim>\<open>uint8_t\<close>;
  the \<^verbatim>\<open>int\<close> values \<^verbatim>\<open>(((B-y_tmp)*cb_factor)>>8) + 128\<close> and
  \<^verbatim>\<open>(((R-y_tmp)*cr_factor)>>8) + 128\<close> assigned or added to \<^verbatim>\<open>u_tmp\<close> and \<^verbatim>\<open>v_tmp\<close>;
  and the byte \<^verbatim>\<open>((y_tmp*y_factor)>>7) + y_offset\<close> stored in the Y plane.\<close>

definition y_tmp_int :: "RGB2YUVParam \<Rightarrow> u8 \<Rightarrow> u8 \<Rightarrow> u8 \<Rightarrow> int" where
  "y_tmp_int P r g b =
     drop_bit 8 (uint (r_factor P) * uint r + uint (g_factor P) * uint g + uint (b_factor P) * uint b)"

definition y_tmp_of :: "RGB2YUVParam \<Rightarrow> u8 \<Rightarrow> u8 \<Rightarrow> u8 \<Rightarrow> u8" where
  "y_tmp_of P r g b = word_of_int (y_tmp_int P r g b)"

definition u_term :: "RGB2YUVParam \<Rightarrow> u8 \<Rightarrow> u8 \<Rightarrow> int" where
  "u_term P b y_tmp = drop_bit 8 ((uint b - uint y_tmp) * uint (RGB2YUVParam.cb_factor P)) + 128"

definition v_term :: "RGB2YUVParam \<Rightarrow> u8 \<Rightarrow> u8 \<Rightarrow> int" where
  "v_term P r y_tmp = drop_bit 8 ((uint r - uint y_tmp) * uint (RGB2YUVParam.cr_factor P)) + 128"

definition y_out_int :: "RGB2YUVParam \<Rightarrow> u8 \<Rightarrow> int" where
  "y_out_int P y_tmp =
     drop_bit 7 (uint y_tmp * uint (RGB2YUVParam.y_factor P)) + uint (RGB2YUVParam.y_offset P)"

definition y_out :: "RGB2YUVParam \<Rightarrow> u8 \<Rightarrow> u8" where
  "y_out P y_tmp = word_of_int (y_out_int P y_tmp)"

text \<open>The body of the inner loop, lines 154-179, for the pointers \<^verbatim>\<open>rgb_ptr1\<close>,
  \<^verbatim>\<open>rgb_ptr2\<close>, \<^verbatim>\<open>y_ptr1\<close>, \<^verbatim>\<open>y_ptr2\<close>, \<^verbatim>\<open>u_ptr\<close> and \<^verbatim>\<open>v_ptr\<close>: it reads
  \<^verbatim>\<open>rgb_ptr1[0..5]\<close> and \<^verbatim>\<open>rgb_ptr2[0..5]\<close> and writes \<^verbatim>\<open>y_ptr1[0..1]\<close>,
  \<^verbatim>\<open>y_ptr2[0..1]\<close>, \<^verbatim>\<open>u_ptr[0]\<close> and \<^verbatim>\<open>v_ptr[0]\<close>, in the order of the source.
  \<^verbatim>\<open>u_tmp\<close> and \<^verbatim>\<open>v_tmp\<close> are \<^verbatim>\<open>uint16_t\<close>: \<^verbatim>\<open>u_tmp += e\<close> is
  \<^verbatim>\<open>u_tmp = (uint16_t)((int)u_tmp + e)\<close>.\<close>

definition rgb24_yuv420_block ::
  "RGB2YUVParam \<Rightarrow> u8 list \<Rightarrow> nat \<Rightarrow> nat \<Rightarrow> nat \<Rightarrow> nat \<Rightarrow> nat \<Rightarrow> nat \<Rightarrow> yuv_planes
    \<Rightarrow> fault + yuv_planes" where
  "rgb24_yuv420_block P RGB rgb_ptr1 rgb_ptr2 y_ptr1 y_ptr2 u_ptr v_ptr s =
    (if rgb_ptr1 + 5 < length RGB \<and> rgb_ptr2 + 5 < length RGB \<and>
        y_ptr1 + 1 < length (Y_plane s) \<and> y_ptr2 + 1 < length (Y_plane s) \<and>
        u_ptr < length (U_plane s) \<and> v_ptr < length (V_plane s)
     then
       (let y_tmp = y_tmp_of P (RGB ! rgb_ptr1) (RGB ! (rgb_ptr1 + 1)) (RGB ! (rgb_ptr1 + 2));
            u_tmp = (word_of_int (u_term P (RGB ! (rgb_ptr1 + 2)) y_tmp) :: u16);
            v_tmp = (word_of_int (v_term P (RGB ! rgb_ptr1) y_tmp) :: u16);
            Y = (Y_plane s)[y_ptr1 := y_out P y_tmp];
            y_tmp = y_tmp_of P (RGB ! (rgb_ptr1 + 3)) (RGB ! (rgb_ptr1 + 4)) (RGB ! (rgb_ptr1 + 5));
            u_tmp = (word_of_int (uint u_tmp + u_term P (RGB ! (rgb_ptr1 + 5)) y_tmp) :: u16);
            v_tmp = (word_of_int (uint v_tmp + v_term P (RGB ! (rgb_ptr1 + 3)) y_tmp) :: u16);
            Y = Y[y_ptr1 + 1 := y_out P y_tmp];
            y_tmp = y_tmp_of P (RGB ! rgb_ptr2) (RGB ! (rgb_ptr2 + 1)) (RGB ! (rgb_ptr2 + 2));
            u_tmp = (word_of_int (uint u_tmp + u_term P (RGB ! (rgb_ptr2 + 2)) y_tmp) :: u16);
            v_tmp = (word_of_int (uint v_tmp + v_term P (RGB ! rgb_ptr2) y_tmp) :: u16);
            Y = Y[y_ptr2 := y_out P y_tmp];
            y_tmp = y_tmp_of P (RGB ! (rgb_ptr2 + 3)) (RGB ! (rgb_ptr2 + 4)) (RGB ! (rgb_ptr2 + 5));
            u_tmp = (word_of_int (uint u_tmp + u_term P (RGB ! (rgb_ptr2 + 5)) y_tmp) :: u16);
            v_tmp = (word_of_int (uint v_tmp + v_term P (RGB ! (rgb_ptr2 + 3)) y_tmp) :: u16);
            Y = Y[y_ptr2 + 1 := y_out P y_tmp]
        in Inr \<lparr> Y_plane = Y,
                 U_plane = (U_plane s)[u_ptr := word_of_int (drop_bit 2 (uint u_tmp))],
                 V_plane = (V_plane s)[v_ptr := word_of_int (drop_bit 2 (uint v_tmp))] \<rparr>)
     else Inl OutOfBounds)"

text \<open>The inner loop \<^verbatim>\<open>for(x=0; x<(width-1); x+=2)\<close>, line 152: \<open>x\<close> and \<open>width\<close> are
  \<^verbatim>\<open>uint32_t\<close>, so \<open>width - 1\<close> and \<open>x + 2\<close> wrap around.  The pointers advance by 6, 2
  and 1.  The loop ends when the guard fails or when the body leaves a buffer.\<close>

function rgb24_yuv420_row ::
  "RGB2YUVParam \<Rightarrow> u32 \<Rightarrow> u8 list \<Rightarrow> u32 \<Rightarrow> nat \<Rightarrow> nat \<Rightarrow> nat \<Rightarrow> nat \<Rightarrow> nat \<Rightarrow> nat \<Rightarrow> yuv_planes
    \<Rightarrow> fault + yuv_planes" where
  "rgb24_yuv420_row P width RGB x rgb_ptr1 rgb_ptr2 y_ptr1 y_ptr2 u_ptr v_ptr s =
    (if x < width - 1 then
       (case rgb24_yuv420_block P RGB rgb_ptr1 rgb_ptr2 y_ptr1 y_ptr2 u_ptr v_ptr s of
          Inl e \<Rightarrow> Inl e
        | Inr s' \<Rightarrow>
            rgb24_yuv420_row P width RGB (x + 2) (rgb_ptr1 + 6) (rgb_ptr2 + 6)
              (y_ptr1 + 2) (y_ptr2 + 2) (u_ptr + 1) (v_ptr + 1) s')
     else Inr s)"
  by pat_completeness auto
termination
proof (relation "measure (\<lambda>(P, width, RGB, x, rgb_ptr1, rest). length RGB - rgb_ptr1)")
  show "wf (measure (\<lambda>(P, width, RGB, x, rgb_ptr1, rest). length RGB - rgb_ptr1))"
    by simp
next
  fix P :: RGB2YUVParam and width x :: u32 and RGB :: "u8 list"
    and rgb_ptr1 rgb_ptr2 y_ptr1 y_ptr2 u_ptr v_ptr :: nat and s s' :: yuv_planes
  assume "rgb24_yuv420_block P RGB rgb_ptr1 rgb_ptr2 y_ptr1 y_ptr2 u_ptr v_ptr s = Inr s'"
  then have "rgb_ptr1 + 5 < length RGB"
    by (simp add: rgb24_yuv420_block_def split: if_splits)
  then show "((P, width, RGB, x + 2, rgb_ptr1 + 6, rgb_ptr2 + 6, y_ptr1 + 2, y_ptr2 + 2,
                u_ptr + 1, v_ptr + 1, s'),
              (P, width, RGB, x, rgb_ptr1, rgb_ptr2, y_ptr1, y_ptr2, u_ptr, v_ptr, s))
             \<in> measure (\<lambda>(P, width, RGB, x, rgb_ptr1, rest). length RGB - rgb_ptr1)"
    by simp
qed

declare rgb24_yuv420_row.simps [simp del]

text \<open>The outer loop \<^verbatim>\<open>for(y=0; y<(height-1); y+=2)\<close>, lines 142-151.  The row offsets
  \<^verbatim>\<open>y*RGB_stride\<close>, \<^verbatim>\<open>(y+1)*RGB_stride\<close>, \<^verbatim>\<open>y*Y_stride\<close>, \<^verbatim>\<open>(y+1)*Y_stride\<close> and
  \<^verbatim>\<open>(y/2)*UV_stride\<close> are \<^verbatim>\<open>uint32_t\<close> products.  For \<open>height = 0\<close> the guard never
  fails, so the loop may run forever: the result \<open>None\<close>.\<close>

partial_function (option) rgb24_yuv420_rows ::
  "RGB2YUVParam \<Rightarrow> u32 \<Rightarrow> u32 \<Rightarrow> u8 list \<Rightarrow> u32 \<Rightarrow> u32 \<Rightarrow> u32 \<Rightarrow> u32 \<Rightarrow> yuv_planes
    \<Rightarrow> (fault + yuv_planes) option" where
  "rgb24_yuv420_rows P width height RGB RGB_stride Y_stride UV_stride y s =
    (if y < height - 1 then
       (case rgb24_yuv420_row P width RGB 0
               (unat (y * RGB_stride)) (unat ((y + 1) * RGB_stride))
               (unat (y * Y_stride)) (unat ((y + 1) * Y_stride))
               (unat ((y div 2) * UV_stride)) (unat ((y div 2) * UV_stride)) s of
          Inl e \<Rightarrow> Some (Inl e)
        | Inr s' \<Rightarrow> rgb24_yuv420_rows P width height RGB RGB_stride Y_stride UV_stride (y + 2) s')
     else Some (Inr s))"

declare rgb24_yuv420_rows.simps [code]

text \<open>\<^verbatim>\<open>void rgb24_yuv420_std(width, height, RGB, RGB_stride, Y, U, V, Y_stride, UV_stride,
  yuv_type)\<close>, lines 133-189; the planes Y, U and V are the state.\<close>

definition rgb24_yuv420_std ::
  "u32 \<Rightarrow> u32 \<Rightarrow> u8 list \<Rightarrow> u32 \<Rightarrow> yuv_planes \<Rightarrow> u32 \<Rightarrow> u32 \<Rightarrow> YCbCrType
    \<Rightarrow> (fault + yuv_planes) option" where
  "rgb24_yuv420_std width height RGB RGB_stride s Y_stride UV_stride yuv_type =
     rgb24_yuv420_rows (RGB2YUV yuv_type) width height RGB RGB_stride Y_stride UV_stride 0 s"

text \<open>The outer loop of \<^verbatim>\<open>rgb24_yuv420_std\<close> pass by pass: the loop counter \<open>y\<close> and the planes
  after at most \<open>n\<close> passes of the body of \<^verbatim>\<open>for(y=0; y<(height-1); y+=2)\<close>, or the fault that
  ended a pass.  A pass whose guard fails leaves the state as it is.  It gives the
  intermediate states of a call that does not return.\<close>

fun rgb24_yuv420_passes ::
  "nat \<Rightarrow> RGB2YUVParam \<Rightarrow> u32 \<Rightarrow> u32 \<Rightarrow> u8 list \<Rightarrow> u32 \<Rightarrow> u32 \<Rightarrow> u32 \<Rightarrow> u32 \<Rightarrow> yuv_planes
    \<Rightarrow> fault + (u32 \<times> yuv_planes)" where
  "rgb24_yuv420_passes 0 P width height RGB RGB_stride Y_stride UV_stride y s = Inr (y, s)"
| "rgb24_yuv420_passes (Suc n) P width height RGB RGB_stride Y_stride UV_stride y s =
    (if y < height - 1 then
       (case rgb24_yuv420_row P width RGB 0
               (unat (y * RGB_stride)) (unat ((y + 1) * RGB_stride))
               (unat (y * Y_stride)) (unat ((y + 1) * Y_stride))
               (unat ((y div 2) * UV_stride)) (unat ((y div 2) * UV_stride)) s of
          Inl e \<Rightarrow> Inl e
        | Inr s' \<Rightarrow>
            rgb24_yuv420_passes n P width height RGB RGB_stride Y_stride UV_stride (y + 2) s')
     else Inr (y, s))"

section \<open>Inverse conversion: \<^verbatim>\<open>yuv420_rgb24_std\<close>\<close>

text \<open>The values shared by a block, lines 212-220: \<^verbatim>\<open>int8_t u_tmp = u_ptr[0]-128\<close> and
  the \<^verbatim>\<open>int16_t\<close> offsets \<^verbatim>\<open>(cb_factor*u_tmp)>>6\<close>, \<^verbatim>\<open>(cr_factor*v_tmp)>>6\<close> and
  \<^verbatim>\<open>(g_cb_factor*u_tmp + g_cr_factor*v_tmp)>>7\<close>.\<close>

definition uv_tmp :: "u8 \<Rightarrow> i8" where
  "uv_tmp c = word_of_int (uint c - 128)"

definition b_cb_offset :: "YUV2RGBParam \<Rightarrow> i8 \<Rightarrow> i16" where
  "b_cb_offset P u_tmp = word_of_int (drop_bit 6 (uint (YUV2RGBParam.cb_factor P) * sint u_tmp))"

definition r_cr_offset :: "YUV2RGBParam \<Rightarrow> i8 \<Rightarrow> i16" where
  "r_cr_offset P v_tmp = word_of_int (drop_bit 6 (uint (YUV2RGBParam.cr_factor P) * sint v_tmp))"

definition g_cbcr_offset :: "YUV2RGBParam \<Rightarrow> i8 \<Rightarrow> i8 \<Rightarrow> i16" where
  "g_cbcr_offset P u_tmp v_tmp =
     word_of_int (drop_bit 7 (uint (g_cb_factor P) * sint u_tmp + uint (g_cr_factor P) * sint v_tmp))"

text \<open>The statements repeated for each pixel, lines 223-226:
  \<^verbatim>\<open>int16_t y_tmp = (y_factor*(Y-y_offset))>>7\<close> and the three stores
  \<^verbatim>\<open>clamp(y_tmp + r_cr_offset)\<close>, \<^verbatim>\<open>clamp(y_tmp - g_cbcr_offset)\<close> and
  \<^verbatim>\<open>clamp(y_tmp + b_cb_offset)\<close>; the \<^verbatim>\<open>int\<close> argument is converted to the
  \<^verbatim>\<open>int16_t\<close> parameter of \<^verbatim>\<open>clamp\<close>.\<close>

definition y_tmp16 :: "YUV2RGBParam \<Rightarrow> u8 \<Rightarrow> i16" where
  "y_tmp16 P y =
     word_of_int (drop_bit 7 (uint (YUV2RGBParam.y_factor P) * (uint y - uint (YUV2RGBParam.y_offset P))))"

definition pixel_R :: "i16 \<Rightarrow> i16 \<Rightarrow> u8" where
  "pixel_R y_tmp r_cr = clamp (word_of_int (sint y_tmp + sint r_cr))"

definition pixel_G :: "i16 \<Rightarrow> i16 \<Rightarrow> u8" where
  "pixel_G y_tmp g_cbcr = clamp (word_of_int (sint y_tmp - sint g_cbcr))"

definition pixel_B :: "i16 \<Rightarrow> i16 \<Rightarrow> u8" where
  "pixel_B y_tmp b_cb = clamp (word_of_int (sint y_tmp + sint b_cb))"

text \<open>The body of the inner loop, lines 212-241: it reads \<^verbatim>\<open>u_ptr[0]\<close>, \<^verbatim>\<open>v_ptr[0]\<close>,
  \<^verbatim>\<open>y_ptr1[0..1]\<close> and \<^verbatim>\<open>y_ptr2[0..1]\<close> and writes \<^verbatim>\<open>rgb_ptr1[0..5]\<close> and
  \<^verbatim>\<open>rgb_ptr2[0..5]\<close>, in the order of the source.\<close>

definition yuv420_rgb24_block ::
  "YUV2RGBParam \<Rightarrow> u8 list \<Rightarrow> u8 list \<Rightarrow> u8 list \<Rightarrow> nat \<Rightarrow> nat \<Rightarrow> nat \<Rightarrow> nat \<Rightarrow> nat \<Rightarrow> nat
    \<Rightarrow> u8 list \<Rightarrow> fault + u8 list" where
  "yuv420_rgb24_block P Y U V y_ptr1 y_ptr2 u_ptr v_ptr rgb_ptr1 rgb_ptr2 RGB =
    (if y_ptr1 + 1 < length Y \<and> y_ptr2 + 1 < length Y \<and> u_ptr < length U \<and> v_ptr < length V \<and>
        rgb_ptr1 + 5 < length RGB \<and> rgb_ptr2 + 5 < length RGB
     then
       (let u_tmp = uv_tmp (U ! u_ptr);
            v_tmp = uv_tmp (V ! v_ptr);
            b_cb = b_cb_offset P u_tmp;
            r_cr = r_cr_offset P v_tmp;
            g_cbcr = g_cbcr_offset P u_tmp v_tmp;
            y_tmp = y_tmp16 P (Y ! y_ptr1);
            RGB = RGB[rgb_ptr1 := pixel_R y_tmp r_cr];
            RGB = RGB[rgb_ptr1 + 1 := pixel_G y_tmp g_cbcr];
            RGB = RGB[rgb_ptr1 + 2 := pixel_B y_tmp b_cb];
            y_tmp = y_tmp16 P (Y ! (y_ptr1 + 1));
            RGB = RGB[rgb_ptr1 + 3 := pixel_R y_tmp r_cr];
            RGB = RGB[rgb_ptr1 + 4 := pixel_G y_tmp g_cbcr];
            RGB = RGB[rgb_ptr1 + 5 := pixel_B y_tmp b_cb];
            y_tmp = y_tmp16 P (Y ! y_ptr2);
            RGB = RGB[rgb_ptr2 := pixel_R y_tmp r_cr];
            RGB = RGB[rgb_ptr2 + 1 := pixel_G y_tmp g_cbcr];
            RGB = RGB[rgb_ptr2 + 2 := pixel_B y_tmp b_cb];
            y_tmp = y_tmp16 P (Y ! (y_ptr2 + 1));
            RGB = RGB[rgb_ptr2 + 3 := pixel_R y_tmp r_cr];
            RGB = RGB[rgb_ptr2 + 4 := pixel_G y_tmp g_cbcr];
            RGB = RGB[rgb_ptr2 + 5 := pixel_B y_tmp b_cb]
        in Inr RGB)
     else Inl OutOfBounds)"

text \<open>The loops of lines 200 and 210, as in the forward direction.\<close>

function yuv420_rgb24_row ::
  "YUV2RGBParam \<Rightarrow> u32 \<Rightarrow> u8 list \<Rightarrow> u8 list \<Rightarrow> u8 list \<Rightarrow> u32 \<Rightarrow> nat \<Rightarrow> nat \<Rightarrow> nat \<Rightarrow> nat
    \<Rightarrow> nat \<Rightarrow> nat \<Rightarrow> u8 list \<Rightarrow> fault + u8 list" where
  "yuv420_rgb24_row P width Y U V x y_ptr1 y_ptr2 u_ptr v_ptr rgb_ptr1 rgb_ptr2 RGB =
    (if x < width - 1 then
       (case yuv420_rgb24_block P Y U V y_ptr1 y_ptr2 u_ptr v_ptr rgb_ptr1 rgb_ptr2 RGB of
          Inl e \<Rightarrow> Inl e
        | Inr RGB' \<Rightarrow>
            yuv420_rgb24_row P width Y U V (x + 2) (y_ptr1 + 2) (y_ptr2 + 2) (u_ptr + 1) (v_ptr + 1)
              (rgb_ptr1 + 6) (rgb_ptr2 + 6) RGB')
     else Inr RGB)"
  by pat_completeness auto
termination
proof (relation "measure (\<lambda>(P, width, Y, U, V, x, y_ptr1, rest). length Y - y_ptr1)")
  show "wf (measure (\<lambda>(P, width, Y, U, V, x, y_ptr1, rest). length Y - y_ptr1))"
    by simp
next
  fix P :: YUV2RGBParam and width x :: u32 and Y U V RGB RGB' :: "u8 list"
    and rgb_ptr1 rgb_ptr2 y_ptr1 y_ptr2 u_ptr v_ptr :: nat
  assume "yuv420_rgb24_block P Y U V y_ptr1 y_ptr2 u_ptr v_ptr rgb_ptr1 rgb_ptr2 RGB = Inr RGB'"
  then have "y_ptr1 + 1 < length Y"
    by (simp add: yuv420_rgb24_block_def split: if_splits)
  then show "((P, width, Y, U, V, x + 2, y_ptr1 + 2, y_ptr2 + 2, u_ptr + 1, v_ptr + 1,
                rgb_ptr1 + 6, rgb_ptr2 + 6, RGB'),
              (P, width, Y, U, V, x, y_ptr1, y_ptr2, u_ptr, v_ptr, rgb_ptr1, rgb_ptr2, RGB))
             \<in> measure (\<lambda>(P, width, Y, U, V, x, y_ptr1, rest). length Y - y_ptr1)"
    by simp
qed

declare yuv420_rgb24_row.simps [simp del]

partial_function (option) yuv420_rgb24_rows ::
  "YUV2RGBParam \<Rightarrow> u32 \<Rightarrow> u32 \<Rightarrow> u8 list \<Rightarrow> u8 list \<Rightarrow> u8 list \<Rightarrow> u32 \<Rightarrow> u32 \<Rightarrow> u32 \<Rightarrow> u32
    \<Rightarrow> u8 list \<Rightarrow> (fault + u8 list) option" where
  "yuv420_rgb24_rows P width height Y U V Y_stride UV_stride RGB_stride y RGB =
    (if y < height - 1 then
       (case yuv420_rgb24_row P width Y U V 0
               (unat (y * Y_stride)) (unat ((y + 1) * Y_stride))
               (unat ((y div 2) * UV_stride)) (unat ((y div 2) * UV_stride))
               (unat (y * RGB_stride)) (unat ((y + 1) * RGB_stride)) RGB of
          Inl e \<Rightarrow> Some (Inl e)
        | Inr RGB' \<Rightarrow>
            yuv420_rgb24_rows P width height Y U V Y_stride UV_stride RGB_stride (y + 2) RGB')
     else Some (Inr RGB))"

declare yuv420_rgb24_rows.simps [code]

text \<open>\<^verbatim>\<open>void yuv420_rgb24_std(width, height, Y, U, V, Y_stride, UV_stride, RGB, RGB_stride,
  yuv_type)\<close>, lines 192-251; the RGB buffer is the state.\<close>

definition yuv420_rgb24_std ::
  "u32 \<Rightarrow> u32 \<Rightarrow> u8 list \<Rightarrow> u8 list \<Rightarrow> u8 list \<Rightarrow> u32 \<Rightarrow> u32 \<Rightarrow> u8 list \<Rightarrow> u32 \<Rightarrow> YCbCrType
    \<Rightarrow> (fault + u8 list) option" where
  "yuv420_rgb24_std width height Y U V Y_stride UV_stride RGB RGB_stride yuv_type =
     yuv420_rgb24_rows (YUV2RGB yuv_type) width height Y U V Y_stride UV_stride RGB_stride 0 RGB"

text \<open>The outer loop of \<^verbatim>\<open>yuv420_rgb24_std\<close> pass by pass, as in the forward direction.\<close>

fun yuv420_rgb24_passes ::
  "nat \<Rightarrow> YUV2RGBParam \<Rightarrow> u32 \<Rightarrow> u32 \<Rightarrow> u8 list \<Rightarrow> u8 list \<Rightarrow> u8 list \<Rightarrow> u32 \<Rightarrow> u32 \<Rightarrow> u32
    \<Rightarrow> u32 \<Rightarrow> u8 list \<Rightarrow> fault + (u32 \<times> u8 list)" where
  "yuv420_rgb24_passes 0 P width height Y U V Y_stride UV_stride RGB_stride y RGB = Inr (y, RGB)"
| "yuv420_rgb24_passes (Suc n) P width height Y U V Y_stride UV_stride RGB_stride y RGB =
    (if y < height - 1 then
       (case yuv420_rgb24_row P width Y U V 0
               (unat (y * Y_stride)) (unat ((y + 1) * Y_stride))
               (unat ((y div 2) * UV_stride)) (unat ((y div 2) * UV_stride))
               (unat (y * RGB_stride)) (unat ((y + 1) * RGB_stride)) RGB of
          Inl e \<Rightarrow> Inl e
        | Inr RGB' \<Rightarrow>
            yuv420_rgb24_passes n P width height Y U V Y_stride UV_stride RGB_stride (y + 2) RGB')
     else Inr (y, RGB))"

section \<open>The vector kernels of the forward conversion\<close>

text \<open>The vector code of lines 253-680 is excluded from compilation by
  \<^verbatim>\<open>#ifdef NOTDEFINED\<close>, and it does not fit the declarations of the file: the kernel
  \<^verbatim>\<open>RGB2YUV_16\<close> reads \<^verbatim>\<open>param->matrix[i][j]\<close> and \<^verbatim>\<open>param->y_shift\<close>, which the structure
  \<^verbatim>\<open>RGB2YUVParam\<close> of lines 76-85 does not have, and the macro \<^verbatim>\<open>PRECISION\<close>, which is
  defined nowhere.  These three are taken as parameters of the kernels, and so is the
  table that \<^verbatim>\<open>&(RGB2YUV[yuv_type])\<close> stands for; everything else is the code as written.

  A \<^verbatim>\<open>__m128i\<close> is the list of its 16 bytes, lowest first.  The intrinsics are those of the
  SSE2 instruction set: a 16-bit lane is two consecutive bytes, low byte first;
  \<^verbatim>\<open>_mm_mullo_epi16\<close> and \<^verbatim>\<open>_mm_add_epi16\<close> wrap around in 16 bits; \<^verbatim>\<open>_mm_srai_epi16\<close> shifts
  the signed lane; \<^verbatim>\<open>_mm_packus_epi16\<close> saturates each signed lane to a byte;
  \<^verbatim>\<open>_mm_avg_epu8\<close> is \<^verbatim>\<open>(a + b + 1) >> 1\<close> on bytes.\<close>

unbundle bit_operations_syntax















































section \<open>The formulas of the specification\<close>

text \<open>Section 4.2 of the specification, in its words and in unbounded integers: the
  pseudo-luma \<open>Y' = (r_factor * R + g_factor * G + b_factor * B) >> 8\<close> and the chroma
  contributions \<open>((B - Y') * cb_factor) >> 8 + 128\<close> and \<open>((R - Y') * cr_factor) >> 8 + 128\<close>
  of one pixel.\<close>

definition spec_luma :: "RGB2YUVParam \<Rightarrow> int \<Rightarrow> int \<Rightarrow> int \<Rightarrow> int" where
  "spec_luma P R G B =
     (uint (r_factor P) * R + uint (g_factor P) * G + uint (b_factor P) * B) div 2 ^ 8"

definition spec_U_ish :: "RGB2YUVParam \<Rightarrow> int \<Rightarrow> int \<Rightarrow> int \<Rightarrow> int" where
  "spec_U_ish P R G B = ((B - spec_luma P R G B) * uint (RGB2YUVParam.cb_factor P)) div 2 ^ 8 + 128"

definition spec_V_ish :: "RGB2YUVParam \<Rightarrow> int \<Rightarrow> int \<Rightarrow> int \<Rightarrow> int" where
  "spec_V_ish P R G B = ((R - spec_luma P R G B) * uint (RGB2YUVParam.cr_factor P)) div 2 ^ 8 + 128"

text \<open>The same for the pixel whose three bytes start at offset \<open>p\<close> of an RGB buffer.\<close>

definition pixel_U_ish :: "RGB2YUVParam \<Rightarrow> u8 list \<Rightarrow> nat \<Rightarrow> int" where
  "pixel_U_ish P RGB p =
     spec_U_ish P (uint (RGB ! p)) (uint (RGB ! (p + 1))) (uint (RGB ! (p + 2)))"

definition pixel_V_ish :: "RGB2YUVParam \<Rightarrow> u8 list \<Rightarrow> nat \<Rightarrow> int" where
  "pixel_V_ish P RGB p =
     spec_V_ish P (uint (RGB ! p)) (uint (RGB ! (p + 1))) (uint (RGB ! (p + 2)))"

text \<open>A block whose two rows of two pixels, at \<^verbatim>\<open>rgb_ptr1\<close> and \<^verbatim>\<open>rgb_ptr2\<close>, hold the
  byte \<open>c\<close> in every channel.\<close>

definition uniform_block :: "u8 list \<Rightarrow> nat \<Rightarrow> nat \<Rightarrow> u8 \<Rightarrow> bool" where
  "uniform_block RGB rgb_ptr1 rgb_ptr2 c =
     list_all (\<lambda>k. RGB ! (rgb_ptr1 + k) = c \<and> RGB ! (rgb_ptr2 + k) = c) [0..<6]"

text \<open>Section 4.3 of the specification, in its words and in unbounded integers:
  \<open>saturate\<close> clips to \<open>[0, 255]\<close>; the offsets shared by a block are
  \<open>(cb_factor * (U - 128)) >> 6\<close>, \<open>(cr_factor * (V - 128)) >> 6\<close> and
  \<open>(g_cb_factor * (U - 128) + g_cr_factor * (V - 128)) >> 7\<close>; for each luma sample
  \<open>Y' = (y_factor * (Y - y_offset)) >> 7\<close>, \<open>R = saturate (Y' + R-offset)\<close>,
  \<open>G = saturate (Y' - G-offset)\<close> and \<open>B = saturate (Y' + B-offset)\<close>.\<close>

definition spec_saturate :: "int \<Rightarrow> int" where
  "spec_saturate x = (if x < 0 then 0 else if x > 255 then 255 else x)"

definition spec_B_offset :: "YUV2RGBParam \<Rightarrow> int \<Rightarrow> int" where
  "spec_B_offset P U = (uint (YUV2RGBParam.cb_factor P) * (U - 128)) div 2 ^ 6"

definition spec_R_offset :: "YUV2RGBParam \<Rightarrow> int \<Rightarrow> int" where
  "spec_R_offset P V = (uint (YUV2RGBParam.cr_factor P) * (V - 128)) div 2 ^ 6"

definition spec_G_offset :: "YUV2RGBParam \<Rightarrow> int \<Rightarrow> int \<Rightarrow> int" where
  "spec_G_offset P U V =
     (uint (g_cb_factor P) * (U - 128) + uint (g_cr_factor P) * (V - 128)) div 2 ^ 7"

definition spec_Y' :: "YUV2RGBParam \<Rightarrow> int \<Rightarrow> int" where
  "spec_Y' P Y = (uint (YUV2RGBParam.y_factor P) * (Y - uint (YUV2RGBParam.y_offset P))) div 2 ^ 7"

definition spec_R :: "YUV2RGBParam \<Rightarrow> u8 \<Rightarrow> u8 \<Rightarrow> u8 \<Rightarrow> int" where
  "spec_R P Y U V = spec_saturate (spec_Y' P (uint Y) + spec_R_offset P (uint V))"

definition spec_G :: "YUV2RGBParam \<Rightarrow> u8 \<Rightarrow> u8 \<Rightarrow> u8 \<Rightarrow> int" where
  "spec_G P Y U V = spec_saturate (spec_Y' P (uint Y) - spec_G_offset P (uint U) (uint V))"

definition spec_B :: "YUV2RGBParam \<Rightarrow> u8 \<Rightarrow> u8 \<Rightarrow> u8 \<Rightarrow> int" where
  "spec_B P Y U V = spec_saturate (spec_Y' P (uint Y) + spec_B_offset P (uint U))"

text \<open>The three bytes of one pixel, in the order R, G, B in which they are stored.\<close>

definition spec_pixel :: "YUV2RGBParam \<Rightarrow> u8 \<Rightarrow> u8 \<Rightarrow> u8 \<Rightarrow> u8 list" where
  "spec_pixel P y u v =
     [word_of_int (spec_R P y u v), word_of_int (spec_G P y u v), word_of_int (spec_B P y u v)]"

section \<open>The even-aligned region\<close>

text \<open>The offsets, in a plane with row pitch \<open>stride\<close>, of the first \<open>cols\<close> bytes of each
  of the first \<open>rows\<close> rows; the offset of row \<open>r\<close> is the \<^verbatim>\<open>uint32_t\<close> product the code
  computes.  The even-aligned region of section 4.2 of the specification is rows
  \<open>0..2 * (H div 2)\<close> and columns \<open>0..2 * (W div 2)\<close> of the luma plane, three bytes for each
  of these columns in the RGB buffer, and rows \<open>0..H div 2\<close> and columns \<open>0..W div 2\<close> of
  the two chroma planes.\<close>

definition block_region :: "nat \<Rightarrow> nat \<Rightarrow> u32 \<Rightarrow> nat set" where
  "block_region rows cols stride = {unat (of_nat r * stride) + c | r c. r < rows \<and> c < cols}"

definition luma_region :: "u32 \<Rightarrow> u32 \<Rightarrow> u32 \<Rightarrow> nat set" where
  "luma_region width height stride =
     block_region (2 * (unat height div 2)) (2 * (unat width div 2)) stride"

definition chroma_region :: "u32 \<Rightarrow> u32 \<Rightarrow> u32 \<Rightarrow> nat set" where
  "chroma_region width height stride =
     block_region (unat height div 2) (unat width div 2) stride"

definition rgb_region :: "u32 \<Rightarrow> u32 \<Rightarrow> u32 \<Rightarrow> nat set" where
  "rgb_region width height stride =
     block_region (2 * (unat height div 2)) (3 * (2 * (unat width div 2))) stride"

section \<open>The parameter tables, evaluated\<close>

lemma RGB2YUV_JPEG:
  "RGB2YUV FullRangeJPEG = \<lparr> r_factor = 77, g_factor = 150, b_factor = 29,
     cb_factor = 144, cr_factor = 183, y_factor = 128, y_offset = 0 \<rparr>"
  by (simp add: RGB2YUV_PARAM_def FIXED_POINT_VALUE_def c_int_def)

lemma RGB2YUV_601:
  "RGB2YUV BT601 = \<lparr> r_factor = 77, g_factor = 150, b_factor = 29,
     cb_factor = 127, cr_factor = 160, y_factor = 110, y_offset = 16 \<rparr>"
  by (simp add: RGB2YUV_PARAM_def FIXED_POINT_VALUE_def c_int_def)

lemma RGB2YUV_709:
  "RGB2YUV BT709 = \<lparr> r_factor = 54, g_factor = 184, b_factor = 18,
     cb_factor = 121, cr_factor = 143, y_factor = 110, y_offset = 16 \<rparr>"
  by (simp add: RGB2YUV_PARAM_def FIXED_POINT_VALUE_def c_int_def)

lemma YUV2RGB_JPEG:
  "YUV2RGB FullRangeJPEG = \<lparr> cb_factor = 113, cr_factor = 90, g_cb_factor = 44,
     g_cr_factor = 91, y_factor = 128, y_offset = 0 \<rparr>"
  by (simp add: YUV2RGB_PARAM_def FIXED_POINT_VALUE_def c_int_def)

lemma YUV2RGB_601:
  "YUV2RGB BT601 = \<lparr> cb_factor = 129, cr_factor = 102, g_cb_factor = 50,
     g_cr_factor = 104, y_factor = 149, y_offset = 16 \<rparr>"
  by (simp add: YUV2RGB_PARAM_def FIXED_POINT_VALUE_def c_int_def)

lemma YUV2RGB_709:
  "YUV2RGB BT709 = \<lparr> cb_factor = 135, cr_factor = 115, g_cb_factor = 27,
     g_cr_factor = 68, y_factor = 149, y_offset = 16 \<rparr>"
  by (simp add: YUV2RGB_PARAM_def FIXED_POINT_VALUE_def c_int_def)

section \<open>The tables are stable under rounding error\<close>

lemma c_int_mono: "x \<le> y \<Longrightarrow> c_int x \<le> c_int y"
proof -
  assume xy: "x \<le> y"
  show ?thesis
  proof (cases "0 \<le> x")
    case True
    with xy show ?thesis by (simp add: c_int_def floor_mono)
  next
    case False
    then have "\<lceil>x\<rceil> \<le> 0" by (simp add: ceiling_le_zero)
    show ?thesis
    proof (cases "0 \<le> y")
      case True
      then have "0 \<le> \<lfloor>y\<rfloor>" by simp
      with \<open>\<lceil>x\<rceil> \<le> 0\<close> have "\<lceil>x\<rceil> \<le> \<lfloor>y\<rfloor>" by linarith
      with \<open>\<not> 0 \<le> x\<close> True show ?thesis by (simp add: c_int_def)
    next
      case False
      with \<open>\<not> 0 \<le> x\<close> xy show ?thesis by (simp add: c_int_def ceiling_mono)
    qed
  qed
qed

lemma c_int_between:
  assumes "\<bar>e\<bar> \<le> d" "c_int (x - d) = k" "c_int (x + d) = k"
  shows "c_int (x + e) = k"
proof -
  have "c_int (x - d) \<le> c_int (x + e)" "c_int (x + e) \<le> c_int (x + d)"
    using assms(1) by (auto intro!: c_int_mono)
  with assms(2,3) show ?thesis by simp
qed

text \<open>Every entry of the forward table is the same when the argument of \<^verbatim>\<open>(int)\<close> is
  off by at most \<open>1 / 100\<close>.\<close>

lemma RGB2YUV_margin:
  assumes e: "\<bar>e\<bar> \<le> 1 / 100"
  shows "c_int (std_Rf T * 256 + 0.5 + e) = uint (r_factor (RGB2YUV T))"
    and "c_int (std_Bf T * 256 + 0.5 + e) = uint (b_factor (RGB2YUV T))"
    and "c_int ((std_CbCrRange T / 255) / (2 * (1 - std_Bf T)) * 256 + 0.5 + e)
          = uint (RGB2YUVParam.cb_factor (RGB2YUV T))"
    and "c_int ((std_CbCrRange T / 255) / (2 * (1 - std_Rf T)) * 256 + 0.5 + e)
          = uint (RGB2YUVParam.cr_factor (RGB2YUV T))"
    and "c_int ((std_YMax T - std_YMin T) / 255 * 128 + 0.5 + e)
          = uint (RGB2YUVParam.y_factor (RGB2YUV T))"
  by (cases T; rule c_int_between [OF e];
      simp add: RGB2YUV_JPEG RGB2YUV_601 RGB2YUV_709 c_int_def del: RGB2YUV.simps)+

text \<open>The same for the inverse table.\<close>

lemma YUV2RGB_margin:
  assumes e: "\<bar>e\<bar> \<le> 1 / 100"
  shows "c_int (255 * (2 * (1 - std_Bf T)) / std_CbCrRange T * 64 + 0.5 + e)
          = uint (YUV2RGBParam.cb_factor (YUV2RGB T))"
    and "c_int (255 * (2 * (1 - std_Rf T)) / std_CbCrRange T * 64 + 0.5 + e)
          = uint (YUV2RGBParam.cr_factor (YUV2RGB T))"
    and "c_int (std_Bf T / (1 - std_Bf T - std_Rf T) * 255 * (2 * (1 - std_Bf T))
            / std_CbCrRange T * 128 + 0.5 + e) = uint (g_cb_factor (YUV2RGB T))"
    and "c_int (std_Rf T / (1 - std_Bf T - std_Rf T) * 255 * (2 * (1 - std_Rf T))
            / std_CbCrRange T * 128 + 0.5 + e) = uint (g_cr_factor (YUV2RGB T))"
    and "c_int (255 / (std_YMax T - std_YMin T) * 128 + 0.5 + e)
          = uint (YUV2RGBParam.y_factor (YUV2RGB T))"
  by (cases T; rule c_int_between [OF e];
      simp add: YUV2RGB_JPEG YUV2RGB_601 YUV2RGB_709 c_int_def del: YUV2RGB.simps)+

section \<open>Claims about the parameter tables\<close>

text \<open>
  Claim C1.  For each of the three standards the luma weights of the forward table add
  up to 256 exactly: \<open>r_factor\<close> and \<open>b_factor\<close> are the macro \<^verbatim>\<open>FIXED_POINT_VALUE\<close> of
  the red and the blue weight, each rounded on its own, and \<open>g_factor\<close> is 256 minus
  these two, so it takes the whole rounding residual.  The fields are bytes; the
  equations are between their values, so no store wrapped.
\<close>

theorem luma_weights_sum_256:
  "uint (r_factor (RGB2YUV T)) + uint (g_factor (RGB2YUV T)) + uint (b_factor (RGB2YUV T)) = 256 \<and>
   uint (r_factor (RGB2YUV T)) = FIXED_POINT_VALUE (std_Rf T) 8 \<and>
   uint (b_factor (RGB2YUV T)) = FIXED_POINT_VALUE (std_Bf T) 8 \<and>
   uint (g_factor (RGB2YUV T)) = 256 - FIXED_POINT_VALUE (std_Rf T) 8 - FIXED_POINT_VALUE (std_Bf T) 8"
  by (cases T) (simp_all add: RGB2YUV_PARAM_def FIXED_POINT_VALUE_def c_int_def)

text \<open>
  Claim C9.  For each standard, with its constants \<open>Rf\<close>, \<open>Bf\<close>, \<open>YMin\<close>, \<open>YMax\<close> and
  \<open>CbCrRange\<close>, the entries of the two tables are the values of the derivation formulas
  of section 4.1 of the specification, rounded half up: forward
  \<open>r_factor = round (Rf * 256)\<close>, \<open>b_factor = round (Bf * 256)\<close>,
  \<open>g_factor = 256 - r_factor - b_factor\<close>,
  \<open>cb_factor = round (256 * (CbCrRange / 255) / (2 * (1 - Bf)))\<close>, \<open>cr_factor\<close> the same
  with \<open>Rf\<close>, \<open>y_factor = round (128 * (YMax - YMin) / 255)\<close>, \<open>y_offset = YMin\<close>; inverse
  \<open>cb_factor = round (64 * 255 * (2 * (1 - Bf)) / CbCrRange)\<close>, \<open>cr_factor\<close> the same with
  \<open>Rf\<close>, \<open>g_cb_factor = round (128 * Bf / (1 - Bf - Rf) * 255 * (2 * (1 - Bf)) / CbCrRange)\<close>,
  \<open>g_cr_factor\<close> the same with \<open>Rf\<close>, \<open>y_factor = round (128 * 255 / (YMax - YMin))\<close>,
  \<open>y_offset = YMin\<close>.
\<close>

theorem tables_follow_derivation:
  "uint (r_factor (RGB2YUV T)) = round_half_up (std_Rf T * 256) \<and>
   uint (b_factor (RGB2YUV T)) = round_half_up (std_Bf T * 256) \<and>
   uint (g_factor (RGB2YUV T)) =
     256 - round_half_up (std_Rf T * 256) - round_half_up (std_Bf T * 256) \<and>
   uint (RGB2YUVParam.cb_factor (RGB2YUV T)) =
     round_half_up (256 * (std_CbCrRange T / 255) / (2 * (1 - std_Bf T))) \<and>
   uint (RGB2YUVParam.cr_factor (RGB2YUV T)) =
     round_half_up (256 * (std_CbCrRange T / 255) / (2 * (1 - std_Rf T))) \<and>
   uint (RGB2YUVParam.y_factor (RGB2YUV T)) =
     round_half_up (128 * (std_YMax T - std_YMin T) / 255) \<and>
   real_of_int (uint (RGB2YUVParam.y_offset (RGB2YUV T))) = std_YMin T \<and>
   uint (YUV2RGBParam.cb_factor (YUV2RGB T)) =
     round_half_up (64 * 255 * (2 * (1 - std_Bf T)) / std_CbCrRange T) \<and>
   uint (YUV2RGBParam.cr_factor (YUV2RGB T)) =
     round_half_up (64 * 255 * (2 * (1 - std_Rf T)) / std_CbCrRange T) \<and>
   uint (g_cb_factor (YUV2RGB T)) =
     round_half_up (128 * std_Bf T / (1 - std_Bf T - std_Rf T) * 255 * (2 * (1 - std_Bf T))
       / std_CbCrRange T) \<and>
   uint (g_cr_factor (YUV2RGB T)) =
     round_half_up (128 * std_Rf T / (1 - std_Bf T - std_Rf T) * 255 * (2 * (1 - std_Rf T))
       / std_CbCrRange T) \<and>
   uint (YUV2RGBParam.y_factor (YUV2RGB T)) =
     round_half_up (128 * 255 / (std_YMax T - std_YMin T)) \<and>
   real_of_int (uint (YUV2RGBParam.y_offset (YUV2RGB T))) = std_YMin T"
  by (cases T)
    (simp_all add: RGB2YUV_JPEG RGB2YUV_601 RGB2YUV_709 YUV2RGB_JPEG YUV2RGB_601 YUV2RGB_709
      round_half_up_def del: RGB2YUV.simps YUV2RGB.simps)

section \<open>Forward conversion: the values of one pixel\<close>

lemma u8_of_int_id: "0 \<le> x \<Longrightarrow> x \<le> 255 \<Longrightarrow> uint (word_of_int x :: u8) = x"
  by (simp add: uint_word_of_int_eq take_bit_int_eq_self)

lemma u16_of_int_id: "0 \<le> x \<Longrightarrow> x \<le> 65535 \<Longrightarrow> uint (word_of_int x :: u16) = x"
  by (simp add: uint_word_of_int_eq take_bit_int_eq_self)

lemma uint_u8_bounds: "0 \<le> uint (x :: u8) \<and> uint x \<le> 255"
  using uint_lt2p [of x] by simp

lemma div256_lower: "256 * (x div 256) \<le> (x::int)"
  using mult_div_mod_eq [of 256 x] pos_mod_sign [of 256 x] by linarith

lemma div256_upper: "(x::int) < 256 * (x div 256) + 256"
  using mult_div_mod_eq [of 256 x] pos_mod_bound [of 256 x] by linarith

lemma shift8_centered:
  assumes "- 32768 \<le> (z::int)" "z \<le> 32767"
  shows "0 \<le> z div 256 + 128 \<and> z div 256 + 128 \<le> 255"
proof -
  have "(- 32768) div 256 \<le> z div 256" using assms(1) by (intro zdiv_mono1) simp_all
  moreover have "z div 256 \<le> 32767 div 256" using assms(2) by (intro zdiv_mono1) simp_all
  ultimately show ?thesis by simp
qed

lemma chroma_core:
  fixes d k m :: int
  assumes "- m \<le> d" "d \<le> m" "0 \<le> k" "m * k \<le> 32767"
  shows "0 \<le> (d * k) div 256 + 128 \<and> (d * k) div 256 + 128 \<le> 255"
proof -
  have "d * k \<le> m * k" using assms(2,3) by (rule mult_right_mono)
  moreover have "(- m) * k \<le> d * k" using assms(1,3) by (rule mult_right_mono)
  ultimately have "- 32768 \<le> d * k" "d * k \<le> 32767" using assms(4) by simp_all
  then show ?thesis by (rule shift8_centered)
qed

lemma luma_601:
  fixes R G B :: int
  assumes "0 \<le> R \<and> R \<le> 255" "0 \<le> G \<and> G \<le> 255" "0 \<le> B \<and> B \<le> 255"
  defines "q \<equiv> (77 * R + 150 * G + 29 * B) div 256"
  shows "0 \<le> q" "q \<le> 255" "- 227 \<le> B - q" "B - q \<le> 227" "- 179 \<le> R - q" "R - q \<le> 179"
proof -
  have lo: "256 * q \<le> 77 * R + 150 * G + 29 * B" unfolding q_def by (rule div256_lower)
  have hi: "77 * R + 150 * G + 29 * B < 256 * q + 256" unfolding q_def by (rule div256_upper)
  show "0 \<le> q" "q \<le> 255" "- 227 \<le> B - q" "B - q \<le> 227" "- 179 \<le> R - q" "R - q \<le> 179"
    using lo hi assms(1-3) by linarith+
qed

lemma luma_709:
  fixes R G B :: int
  assumes "0 \<le> R \<and> R \<le> 255" "0 \<le> G \<and> G \<le> 255" "0 \<le> B \<and> B \<le> 255"
  defines "q \<equiv> (54 * R + 184 * G + 18 * B) div 256"
  shows "0 \<le> q" "q \<le> 255" "- 238 \<le> B - q" "B - q \<le> 238" "- 202 \<le> R - q" "R - q \<le> 202"
proof -
  have lo: "256 * q \<le> 54 * R + 184 * G + 18 * B" unfolding q_def by (rule div256_lower)
  have hi: "54 * R + 184 * G + 18 * B < 256 * q + 256" unfolding q_def by (rule div256_upper)
  show "0 \<le> q" "q \<le> 255" "- 238 \<le> B - q" "B - q \<le> 238" "- 202 \<le> R - q" "R - q \<le> 202"
    using lo hi assms(1-3) by linarith+
qed

lemma y_tmp_int_range: "0 \<le> y_tmp_int (RGB2YUV T) r g b \<and> y_tmp_int (RGB2YUV T) r g b \<le> 255"
  using luma_601 (1,2) [OF uint_u8_bounds [of r] uint_u8_bounds [of g] uint_u8_bounds [of b]]
    luma_709 (1,2) [OF uint_u8_bounds [of r] uint_u8_bounds [of g] uint_u8_bounds [of b]]
  by (cases T)
    (simp_all add: RGB2YUV_JPEG RGB2YUV_601 RGB2YUV_709 y_tmp_int_def drop_bit_eq_div
      del: RGB2YUV.simps)

lemma uint_y_tmp_of: "uint (y_tmp_of (RGB2YUV T) r g b) = y_tmp_int (RGB2YUV T) r g b"
  using y_tmp_int_range [of T r g b] by (simp add: y_tmp_of_def u8_of_int_id)

lemma u_term_range:
  "0 \<le> u_term (RGB2YUV T) b (y_tmp_of (RGB2YUV T) r g b) \<and>
   u_term (RGB2YUV T) b (y_tmp_of (RGB2YUV T) r g b) \<le> 255"
proof -
  note bs = uint_u8_bounds [of r] uint_u8_bounds [of g] uint_u8_bounds [of b]
  note A = luma_601 (3,4) [OF bs] and B = luma_709 (3,4) [OF bs]
  show ?thesis
  proof (cases T)
    case FullRangeJPEG
    show ?thesis
      unfolding u_term_def uint_y_tmp_of FullRangeJPEG using chroma_core [OF A, of 144]
      by (simp add: RGB2YUV_JPEG y_tmp_int_def drop_bit_eq_div del: RGB2YUV.simps)
  next
    case BT601
    show ?thesis
      unfolding u_term_def uint_y_tmp_of BT601 using chroma_core [OF A, of 127]
      by (simp add: RGB2YUV_601 y_tmp_int_def drop_bit_eq_div del: RGB2YUV.simps)
  next
    case BT709
    show ?thesis
      unfolding u_term_def uint_y_tmp_of BT709 using chroma_core [OF B, of 121]
      by (simp add: RGB2YUV_709 y_tmp_int_def drop_bit_eq_div del: RGB2YUV.simps)
  qed
qed

lemma v_term_range:
  "0 \<le> v_term (RGB2YUV T) r (y_tmp_of (RGB2YUV T) r g b) \<and>
   v_term (RGB2YUV T) r (y_tmp_of (RGB2YUV T) r g b) \<le> 255"
proof -
  note bs = uint_u8_bounds [of r] uint_u8_bounds [of g] uint_u8_bounds [of b]
  note A = luma_601 (5,6) [OF bs] and B = luma_709 (5,6) [OF bs]
  show ?thesis
  proof (cases T)
    case FullRangeJPEG
    show ?thesis
      unfolding v_term_def uint_y_tmp_of FullRangeJPEG using chroma_core [OF A, of 183]
      by (simp add: RGB2YUV_JPEG y_tmp_int_def drop_bit_eq_div del: RGB2YUV.simps)
  next
    case BT601
    show ?thesis
      unfolding v_term_def uint_y_tmp_of BT601 using chroma_core [OF A, of 160]
      by (simp add: RGB2YUV_601 y_tmp_int_def drop_bit_eq_div del: RGB2YUV.simps)
  next
    case BT709
    show ?thesis
      unfolding v_term_def uint_y_tmp_of BT709 using chroma_core [OF B, of 143]
      by (simp add: RGB2YUV_709 y_tmp_int_def drop_bit_eq_div del: RGB2YUV.simps)
  qed
qed

lemma rescale_range:
  fixes q :: int
  assumes "0 \<le> q" "q \<le> 255"
  shows "0 \<le> q * 128 div 128 + 0 \<and> q * 128 div 128 + 0 \<le> 255"
    and "0 \<le> q * 110 div 128 + 16 \<and> q * 110 div 128 + 16 \<le> 255"
proof -
  show "0 \<le> q * 128 div 128 + 0 \<and> q * 128 div 128 + 0 \<le> 255" using assms by simp
  have "0 div 128 \<le> q * 110 div 128" using assms(1) by (intro zdiv_mono1) simp_all
  moreover have "q * 110 div 128 \<le> 28050 div 128" using assms(2) by (intro zdiv_mono1) simp_all
  ultimately show "0 \<le> q * 110 div 128 + 16 \<and> q * 110 div 128 + 16 \<le> 255" by simp
qed

lemma y_out_int_range:
  "0 \<le> y_out_int (RGB2YUV T) (y_tmp_of (RGB2YUV T) r g b) \<and>
   y_out_int (RGB2YUV T) (y_tmp_of (RGB2YUV T) r g b) \<le> 255"
proof -
  have q: "0 \<le> y_tmp_int (RGB2YUV T) r g b" "y_tmp_int (RGB2YUV T) r g b \<le> 255"
    using y_tmp_int_range [of T r g b] by simp_all
  show ?thesis
    unfolding y_out_int_def uint_y_tmp_of
    using rescale_range [OF q]
    by (cases T)
      (simp_all add: RGB2YUV_JPEG RGB2YUV_601 RGB2YUV_709 drop_bit_eq_div del: RGB2YUV.simps)
qed


section \<open>Forward conversion: one block\<close>

lemma u_term_spec:
  "u_term (RGB2YUV T) b (y_tmp_of (RGB2YUV T) r g b) = spec_U_ish (RGB2YUV T) (uint r) (uint g) (uint b)"
  by (simp only: u_term_def uint_y_tmp_of y_tmp_int_def spec_U_ish_def spec_luma_def drop_bit_eq_div)

lemma v_term_spec:
  "v_term (RGB2YUV T) r (y_tmp_of (RGB2YUV T) r g b) = spec_V_ish (RGB2YUV T) (uint r) (uint g) (uint b)"
  by (simp only: v_term_def uint_y_tmp_of y_tmp_int_def spec_V_ish_def spec_luma_def drop_bit_eq_div)

lemma acc4:
  fixes t1 t2 t3 t4 :: int
  assumes "0 \<le> t1 \<and> t1 \<le> 255" "0 \<le> t2 \<and> t2 \<le> 255" "0 \<le> t3 \<and> t3 \<le> 255" "0 \<le> t4 \<and> t4 \<le> 255"
  shows "uint (word_of_int (drop_bit 2 (uint (word_of_int (uint (word_of_int (uint (word_of_int
           (uint (word_of_int t1 :: u16) + t2) :: u16) + t3) :: u16) + t4) :: u16))) :: u8)
         = (t1 + t2 + t3 + t4) div 4"
proof -
  have 1: "uint (word_of_int t1 :: u16) = t1" using assms by (intro u16_of_int_id) simp_all
  have 2: "uint (word_of_int (t1 + t2) :: u16) = t1 + t2" using assms by (intro u16_of_int_id) simp_all
  have 3: "uint (word_of_int (t1 + t2 + t3) :: u16) = t1 + t2 + t3"
    using assms by (intro u16_of_int_id) simp_all
  have 4: "uint (word_of_int (t1 + t2 + t3 + t4) :: u16) = t1 + t2 + t3 + t4"
    using assms by (intro u16_of_int_id) simp_all
  have "0 div 4 \<le> (t1 + t2 + t3 + t4) div 4" using assms by (intro zdiv_mono1) simp_all
  moreover have "(t1 + t2 + t3 + t4) div 4 \<le> 1020 div 4" using assms by (intro zdiv_mono1) simp_all
  ultimately have "uint (word_of_int ((t1 + t2 + t3 + t4) div 4) :: u8) = (t1 + t2 + t3 + t4) div 4"
    by (intro u8_of_int_id) simp_all
  then show ?thesis by (simp only: 1 2 3 4 drop_bit_eq_div) simp
qed

lemma block_Inr:
  assumes "rgb24_yuv420_block P RGB p1 p2 y1 y2 up vp s = Inr s'"
  shows "p1 + 5 < length RGB" "p2 + 5 < length RGB" "y1 + 1 < length (Y_plane s)"
    "y2 + 1 < length (Y_plane s)" "up < length (U_plane s)" "vp < length (V_plane s)"
    "Y_plane s' = (Y_plane s)
       [y1 := y_out P (y_tmp_of P (RGB ! p1) (RGB ! (p1 + 1)) (RGB ! (p1 + 2))),
        y1 + 1 := y_out P (y_tmp_of P (RGB ! (p1 + 3)) (RGB ! (p1 + 4)) (RGB ! (p1 + 5))),
        y2 := y_out P (y_tmp_of P (RGB ! p2) (RGB ! (p2 + 1)) (RGB ! (p2 + 2))),
        y2 + 1 := y_out P (y_tmp_of P (RGB ! (p2 + 3)) (RGB ! (p2 + 4)) (RGB ! (p2 + 5)))]"
    "U_plane s' = (U_plane s)[up := word_of_int (drop_bit 2 (uint (word_of_int (uint (word_of_int
       (uint (word_of_int (uint (word_of_int
          (u_term P (RGB ! (p1 + 2)) (y_tmp_of P (RGB ! p1) (RGB ! (p1 + 1)) (RGB ! (p1 + 2)))) :: u16)
        + u_term P (RGB ! (p1 + 5)) (y_tmp_of P (RGB ! (p1 + 3)) (RGB ! (p1 + 4)) (RGB ! (p1 + 5)))) :: u16)
        + u_term P (RGB ! (p2 + 2)) (y_tmp_of P (RGB ! p2) (RGB ! (p2 + 1)) (RGB ! (p2 + 2)))) :: u16)
        + u_term P (RGB ! (p2 + 5)) (y_tmp_of P (RGB ! (p2 + 3)) (RGB ! (p2 + 4)) (RGB ! (p2 + 5)))) :: u16)))]"
    "V_plane s' = (V_plane s)[vp := word_of_int (drop_bit 2 (uint (word_of_int (uint (word_of_int
       (uint (word_of_int (uint (word_of_int
          (v_term P (RGB ! p1) (y_tmp_of P (RGB ! p1) (RGB ! (p1 + 1)) (RGB ! (p1 + 2)))) :: u16)
        + v_term P (RGB ! (p1 + 3)) (y_tmp_of P (RGB ! (p1 + 3)) (RGB ! (p1 + 4)) (RGB ! (p1 + 5)))) :: u16)
        + v_term P (RGB ! p2) (y_tmp_of P (RGB ! p2) (RGB ! (p2 + 1)) (RGB ! (p2 + 2)))) :: u16)
        + v_term P (RGB ! (p2 + 3)) (y_tmp_of P (RGB ! (p2 + 3)) (RGB ! (p2 + 4)) (RGB ! (p2 + 5)))) :: u16)))]"
  using assms by (auto simp add: rgb24_yuv420_block_def Let_def split: if_splits)

lemma pixel_offsets: "p + 3 + 1 = p + (4::nat)" "p + 3 + 2 = p + (5::nat)"
  by simp_all

lemma spec_U_ish_range:
  fixes r g b :: u8
  shows "0 \<le> spec_U_ish (RGB2YUV T) (uint r) (uint g) (uint b) \<and>
   spec_U_ish (RGB2YUV T) (uint r) (uint g) (uint b) \<le> 255"
  using u_term_range [of T b r g] by (simp only: u_term_spec)

lemma spec_V_ish_range:
  fixes r g b :: u8
  shows "0 \<le> spec_V_ish (RGB2YUV T) (uint r) (uint g) (uint b) \<and>
   spec_V_ish (RGB2YUV T) (uint r) (uint g) (uint b) \<le> 255"
  using v_term_range [of T r g b] by (simp only: v_term_spec)

text \<open>The single U sample a block writes is the sum of the four per-pixel values shifted
  right by 2, and so is the V sample; the right-hand sides are unbounded integers.\<close>

lemma block_box_filter:
  assumes "rgb24_yuv420_block (RGB2YUV T) RGB p1 p2 y1 y2 up vp s = Inr s'"
  shows "uint (U_plane s' ! up) =
           (pixel_U_ish (RGB2YUV T) RGB p1 + pixel_U_ish (RGB2YUV T) RGB (p1 + 3) +
            pixel_U_ish (RGB2YUV T) RGB p2 + pixel_U_ish (RGB2YUV T) RGB (p2 + 3)) div 4"
    and "uint (V_plane s' ! vp) =
           (pixel_V_ish (RGB2YUV T) RGB p1 + pixel_V_ish (RGB2YUV T) RGB (p1 + 3) +
            pixel_V_ish (RGB2YUV T) RGB p2 + pixel_V_ish (RGB2YUV T) RGB (p2 + 3)) div 4"
proof -
  note B = block_Inr [OF assms]
  have U: "uint (U_plane s' ! up) =
      (spec_U_ish (RGB2YUV T) (uint (RGB ! p1)) (uint (RGB ! (p1 + 1))) (uint (RGB ! (p1 + 2))) +
       spec_U_ish (RGB2YUV T) (uint (RGB ! (p1 + 3))) (uint (RGB ! (p1 + 4))) (uint (RGB ! (p1 + 5))) +
       spec_U_ish (RGB2YUV T) (uint (RGB ! p2)) (uint (RGB ! (p2 + 1))) (uint (RGB ! (p2 + 2))) +
       spec_U_ish (RGB2YUV T) (uint (RGB ! (p2 + 3))) (uint (RGB ! (p2 + 4))) (uint (RGB ! (p2 + 5)))) div 4"
    by (simp only: B(8) nth_list_update_eq [OF B(5)] u_term_spec
        acc4 [OF spec_U_ish_range spec_U_ish_range spec_U_ish_range spec_U_ish_range])
  have V: "uint (V_plane s' ! vp) =
      (spec_V_ish (RGB2YUV T) (uint (RGB ! p1)) (uint (RGB ! (p1 + 1))) (uint (RGB ! (p1 + 2))) +
       spec_V_ish (RGB2YUV T) (uint (RGB ! (p1 + 3))) (uint (RGB ! (p1 + 4))) (uint (RGB ! (p1 + 5))) +
       spec_V_ish (RGB2YUV T) (uint (RGB ! p2)) (uint (RGB ! (p2 + 1))) (uint (RGB ! (p2 + 2))) +
       spec_V_ish (RGB2YUV T) (uint (RGB ! (p2 + 3))) (uint (RGB ! (p2 + 4))) (uint (RGB ! (p2 + 5)))) div 4"
    by (simp only: B(9) nth_list_update_eq [OF B(6)] v_term_spec
        acc4 [OF spec_V_ish_range spec_V_ish_range spec_V_ish_range spec_V_ish_range])
  show "uint (U_plane s' ! up) =
           (pixel_U_ish (RGB2YUV T) RGB p1 + pixel_U_ish (RGB2YUV T) RGB (p1 + 3) +
            pixel_U_ish (RGB2YUV T) RGB p2 + pixel_U_ish (RGB2YUV T) RGB (p2 + 3)) div 4"
    by (simp only: U pixel_U_ish_def pixel_offsets)
  show "uint (V_plane s' ! vp) =
           (pixel_V_ish (RGB2YUV T) RGB p1 + pixel_V_ish (RGB2YUV T) RGB (p1 + 3) +
            pixel_V_ish (RGB2YUV T) RGB p2 + pixel_V_ish (RGB2YUV T) RGB (p2 + 3)) div 4"
    by (simp only: V pixel_V_ish_def pixel_offsets)
qed

section \<open>Forward conversion: ranges and known vectors\<close>

text \<open>
  Claim C5.  The forward conversion has no saturating clamp, and for every 8-bit
  \<open>R\<close>, \<open>G\<close>, \<open>B\<close> and each of the three tables every value it computes for Y, U and V
  is in \<open>[0, 255]\<close> before it is stored: the pseudo-luma assigned to the \<^verbatim>\<open>uint8_t y_tmp\<close>,
  the two per-pixel chroma values added to the \<^verbatim>\<open>uint16_t\<close> accumulators, the byte stored
  in the Y plane and, for the four pixels of a block, the sums in the accumulators (below
  \<open>2 ^ 16\<close>) and the shifted sums stored in the U and V planes.  So no store wraps.  (The
  signed differences \<open>B - Y'\<close> and \<open>R - Y'\<close> inside the chroma values are negative for some
  pixels; the values of Y, U and V are not.)
\<close>

theorem forward_values_in_byte_range:
  fixes r g b r' g' b' r'' g'' b'' r''' g''' b''' :: u8
  shows "0 \<le> y_tmp_int (RGB2YUV T) r g b \<and> y_tmp_int (RGB2YUV T) r g b \<le> 255 \<and>
    0 \<le> u_term (RGB2YUV T) b (y_tmp_of (RGB2YUV T) r g b) \<and>
    u_term (RGB2YUV T) b (y_tmp_of (RGB2YUV T) r g b) \<le> 255 \<and>
    0 \<le> v_term (RGB2YUV T) r (y_tmp_of (RGB2YUV T) r g b) \<and>
    v_term (RGB2YUV T) r (y_tmp_of (RGB2YUV T) r g b) \<le> 255 \<and>
    0 \<le> y_out_int (RGB2YUV T) (y_tmp_of (RGB2YUV T) r g b) \<and>
    y_out_int (RGB2YUV T) (y_tmp_of (RGB2YUV T) r g b) \<le> 255 \<and>
    u_term (RGB2YUV T) b (y_tmp_of (RGB2YUV T) r g b) +
      u_term (RGB2YUV T) b' (y_tmp_of (RGB2YUV T) r' g' b') +
      u_term (RGB2YUV T) b'' (y_tmp_of (RGB2YUV T) r'' g'' b'') +
      u_term (RGB2YUV T) b''' (y_tmp_of (RGB2YUV T) r''' g''' b''') < 2 ^ 16 \<and>
    0 \<le> drop_bit 2 (u_term (RGB2YUV T) b (y_tmp_of (RGB2YUV T) r g b) +
      u_term (RGB2YUV T) b' (y_tmp_of (RGB2YUV T) r' g' b') +
      u_term (RGB2YUV T) b'' (y_tmp_of (RGB2YUV T) r'' g'' b'') +
      u_term (RGB2YUV T) b''' (y_tmp_of (RGB2YUV T) r''' g''' b''')) \<and>
    drop_bit 2 (u_term (RGB2YUV T) b (y_tmp_of (RGB2YUV T) r g b) +
      u_term (RGB2YUV T) b' (y_tmp_of (RGB2YUV T) r' g' b') +
      u_term (RGB2YUV T) b'' (y_tmp_of (RGB2YUV T) r'' g'' b'') +
      u_term (RGB2YUV T) b''' (y_tmp_of (RGB2YUV T) r''' g''' b''')) \<le> 255 \<and>
    v_term (RGB2YUV T) r (y_tmp_of (RGB2YUV T) r g b) +
      v_term (RGB2YUV T) r' (y_tmp_of (RGB2YUV T) r' g' b') +
      v_term (RGB2YUV T) r'' (y_tmp_of (RGB2YUV T) r'' g'' b'') +
      v_term (RGB2YUV T) r''' (y_tmp_of (RGB2YUV T) r''' g''' b''') < 2 ^ 16 \<and>
    0 \<le> drop_bit 2 (v_term (RGB2YUV T) r (y_tmp_of (RGB2YUV T) r g b) +
      v_term (RGB2YUV T) r' (y_tmp_of (RGB2YUV T) r' g' b') +
      v_term (RGB2YUV T) r'' (y_tmp_of (RGB2YUV T) r'' g'' b'') +
      v_term (RGB2YUV T) r''' (y_tmp_of (RGB2YUV T) r''' g''' b''')) \<and>
    drop_bit 2 (v_term (RGB2YUV T) r (y_tmp_of (RGB2YUV T) r g b) +
      v_term (RGB2YUV T) r' (y_tmp_of (RGB2YUV T) r' g' b') +
      v_term (RGB2YUV T) r'' (y_tmp_of (RGB2YUV T) r'' g'' b'') +
      v_term (RGB2YUV T) r''' (y_tmp_of (RGB2YUV T) r''' g''' b''')) \<le> 255"
proof -
  have sum4: "a + b + c + d < 2 ^ 16 \<and> 0 \<le> drop_bit 2 (a + b + c + d) \<and>
      drop_bit 2 (a + b + c + d) \<le> 255"
    if "0 \<le> a \<and> a \<le> 255" "0 \<le> b \<and> b \<le> 255" "0 \<le> c \<and> c \<le> 255" "0 \<le> d \<and> d \<le> 255"
    for a b c d :: int
  proof -
    have "0 div 4 \<le> (a + b + c + d) div 4" using that by (intro zdiv_mono1) simp_all
    moreover have "(a + b + c + d) div 4 \<le> 1020 div 4" using that by (intro zdiv_mono1) simp_all
    ultimately show ?thesis using that by (simp add: drop_bit_eq_div)
  qed
  show ?thesis
    using y_tmp_int_range [of T r g b] u_term_range [of T b r g] v_term_range [of T r g b]
      y_out_int_range [of T r g b]
      sum4 [OF u_term_range [of T b r g] u_term_range [of T b' r' g']
        u_term_range [of T b'' r'' g''] u_term_range [of T b''' r''' g''']]
      sum4 [OF v_term_range [of T r g b] v_term_range [of T r' g' b']
        v_term_range [of T r'' g'' b''] v_term_range [of T r''' g''' b''']]
    by blast
qed

lemma uniform_pixel_601:
  "y_out (RGB2YUV BT601) (y_tmp_of (RGB2YUV BT601) 255 255 255) = 235"
  "u_term (RGB2YUV BT601) 255 (y_tmp_of (RGB2YUV BT601) 255 255 255) = 128"
  "v_term (RGB2YUV BT601) 255 (y_tmp_of (RGB2YUV BT601) 255 255 255) = 128"
  "y_out (RGB2YUV BT601) (y_tmp_of (RGB2YUV BT601) 0 0 0) = 16"
  "u_term (RGB2YUV BT601) 0 (y_tmp_of (RGB2YUV BT601) 0 0 0) = 128"
  "v_term (RGB2YUV BT601) 0 (y_tmp_of (RGB2YUV BT601) 0 0 0) = 128"
  "y_out (RGB2YUV BT601) (y_tmp_of (RGB2YUV BT601) 128 128 128) = 126"
  "u_term (RGB2YUV BT601) 128 (y_tmp_of (RGB2YUV BT601) 128 128 128) = 128"
  "v_term (RGB2YUV BT601) 128 (y_tmp_of (RGB2YUV BT601) 128 128 128) = 128"
  by (simp_all add: RGB2YUV_601 y_out_def y_out_int_def y_tmp_of_def y_tmp_int_def u_term_def
      v_term_def drop_bit_eq_div del: RGB2YUV.simps)


lemma uniform_blockD:
  assumes "uniform_block RGB p1 p2 c"
  shows "RGB ! p1 = c" "RGB ! (p1 + 1) = c" "RGB ! (p1 + 2) = c" "RGB ! (p1 + 3) = c"
    "RGB ! (p1 + 4) = c" "RGB ! (p1 + 5) = c"
    "RGB ! p2 = c" "RGB ! (p2 + 1) = c" "RGB ! (p2 + 2) = c" "RGB ! (p2 + 3) = c"
    "RGB ! (p2 + 4) = c" "RGB ! (p2 + 5) = c"
proof -
  have "[0..<6] = [0, 1, 2, 3, 4, 5]" by (simp add: upt_rec)
  with assms show "RGB ! p1 = c" "RGB ! (p1 + 1) = c" "RGB ! (p1 + 2) = c" "RGB ! (p1 + 3) = c"
    "RGB ! (p1 + 4) = c" "RGB ! (p1 + 5) = c"
    "RGB ! p2 = c" "RGB ! (p2 + 1) = c" "RGB ! (p2 + 2) = c" "RGB ! (p2 + 3) = c"
    "RGB ! (p2 + 4) = c" "RGB ! (p2 + 5) = c"
    by (simp_all add: uniform_block_def)
qed

lemma acc4_128:
  "(word_of_int (drop_bit 2 (uint (word_of_int (uint (word_of_int (uint (word_of_int
           (uint (word_of_int 128 :: u16) + 128) :: u16) + 128) :: u16) + 128) :: u16))) :: u8) = 128"
  by (simp add: drop_bit_eq_div)

text \<open>
  Claim C2.  Under BT601 a 2x2 block filled with the pixel (255, 255, 255) is converted
  to Y = 235 at its four luma positions and U = V = 128; a block filled with (0, 0, 0)
  to Y = 16, U = V = 128; and a block filled with (128, 128, 128) to
  \<open>Y = (128 * y_factor >> 7) + 16\<close>, U = V = 128.  This holds wherever the block lies in
  the buffers.
\<close>

theorem bt601_known_vectors:
  assumes blk: "rgb24_yuv420_block (RGB2YUV BT601) RGB p1 p2 y1 y2 up vp s = Inr s'"
    and uni: "uniform_block RGB p1 p2 c"
    and c: "c = 255 \<or> c = 0 \<or> c = 128"
  shows "Y_plane s' ! y1 = (if c = 255 then 235 else if c = 0 then 16
            else word_of_int (drop_bit 7 (128 * uint (RGB2YUVParam.y_factor (RGB2YUV BT601))) + 16)) \<and>
         Y_plane s' ! (y1 + 1) = Y_plane s' ! y1 \<and>
         Y_plane s' ! y2 = Y_plane s' ! y1 \<and>
         Y_plane s' ! (y2 + 1) = Y_plane s' ! y1 \<and>
         U_plane s' ! up = 128 \<and> V_plane s' ! vp = 128"
proof -
  note B = block_Inr [OF blk]
  note px = uniform_blockD [OF uni]
  from c show ?thesis
  proof (elim disjE)
    assume "c = 255"
    then show ?thesis
      unfolding B(7,8,9) px using B(3-6)
      by (simp add: uniform_pixel_601 acc4_128 nth_list_update del: RGB2YUV.simps)
  next
    assume "c = 0"
    then show ?thesis
      unfolding B(7,8,9) px using B(3-6)
      by (simp add: uniform_pixel_601 acc4_128 nth_list_update del: RGB2YUV.simps)
  next
    assume "c = 128"
    moreover have "word_of_int (drop_bit 7 (128 * uint (RGB2YUVParam.y_factor (RGB2YUV BT601))) + 16)
        = (126 :: u8)"
      by (simp add: RGB2YUV_601 drop_bit_eq_div del: RGB2YUV.simps)
    ultimately show ?thesis
      unfolding B(7,8,9) px using B(3-6)
      by (simp add: uniform_pixel_601 acc4_128 nth_list_update del: RGB2YUV.simps)
  qed
qed

theorem bt601_known_vectors_witness:
  "rgb24_yuv420_block (RGB2YUV BT601) (replicate 12 255) 0 6 0 2 0 0
      \<lparr>Y_plane = [0, 0, 0, 0], U_plane = [0], V_plane = [0]\<rparr>
     = Inr \<lparr>Y_plane = [235, 235, 235, 235], U_plane = [128], V_plane = [128]\<rparr> \<and>
   uniform_block (replicate 12 255) 0 6 255 \<and>
   rgb24_yuv420_std 2 2 (replicate 12 255) 6
      \<lparr>Y_plane = [0, 0, 0, 0], U_plane = [0], V_plane = [0]\<rparr> 2 1 BT601
     = Some (Inr \<lparr>Y_plane = [235, 235, 235, 235], U_plane = [128], V_plane = [128]\<rparr>) \<and>
   rgb24_yuv420_std 2 2 (replicate 12 0) 6
      \<lparr>Y_plane = [0, 0, 0, 0], U_plane = [0], V_plane = [0]\<rparr> 2 1 BT601
     = Some (Inr \<lparr>Y_plane = [16, 16, 16, 16], U_plane = [128], V_plane = [128]\<rparr>) \<and>
   rgb24_yuv420_std 2 2 (replicate 12 128) 6
      \<lparr>Y_plane = [0, 0, 0, 0], U_plane = [0], V_plane = [0]\<rparr> 2 1 BT601
     = Some (Inr \<lparr>Y_plane = [126, 126, 126, 126], U_plane = [128], V_plane = [128]\<rparr>)"
proof -
  have blk: "rgb24_yuv420_block (RGB2YUV BT601) (replicate 12 255) 0 6 0 2 0 0
      \<lparr>Y_plane = [0, 0, 0, 0], U_plane = [0], V_plane = [0]\<rparr>
     = Inr \<lparr>Y_plane = [235, 235, 235, 235], U_plane = [128], V_plane = [128]\<rparr>"
    by code_simp
  have uni: "uniform_block (replicate 12 255) 0 6 255"
    by code_simp
  have std: "rgb24_yuv420_std 2 2 (replicate 12 255) 6
      \<lparr>Y_plane = [0, 0, 0, 0], U_plane = [0], V_plane = [0]\<rparr> 2 1 BT601
     = Some (Inr \<lparr>Y_plane = [235, 235, 235, 235], U_plane = [128], V_plane = [128]\<rparr>)"
    "rgb24_yuv420_std 2 2 (replicate 12 0) 6
      \<lparr>Y_plane = [0, 0, 0, 0], U_plane = [0], V_plane = [0]\<rparr> 2 1 BT601
     = Some (Inr \<lparr>Y_plane = [16, 16, 16, 16], U_plane = [128], V_plane = [128]\<rparr>)"
    "rgb24_yuv420_std 2 2 (replicate 12 128) 6
      \<lparr>Y_plane = [0, 0, 0, 0], U_plane = [0], V_plane = [0]\<rparr> 2 1 BT601
     = Some (Inr \<lparr>Y_plane = [126, 126, 126, 126], U_plane = [128], V_plane = [128]\<rparr>)"
    by code_simp+
  have c: "(255 :: u8) = 255 \<or> (255 :: u8) = 0 \<or> (255 :: u8) = 128"
    by simp
  show ?thesis
    using bt601_known_vectors [OF blk uni c] blk uni std by simp
qed

section \<open>Inverse conversion: the values of one pixel\<close>

lemma i8_of_int_id: "- 128 \<le> x \<Longrightarrow> x \<le> 127 \<Longrightarrow> sint (word_of_int x :: i8) = x"
  by (simp add: sint_sbintrunc' signed_take_bit_int_eq_self)

lemma i16_of_int_id: "- 32768 \<le> x \<Longrightarrow> x \<le> 32767 \<Longrightarrow> sint (word_of_int x :: i16) = x"
  by (simp add: sint_sbintrunc' signed_take_bit_int_eq_self)

lemma sint_uv_tmp: "sint (uv_tmp c) = uint c - 128"
  unfolding uv_tmp_def using uint_u8_bounds [of c] by (intro i8_of_int_id) simp_all

lemma prod_bound:
  fixes a b m :: int
  assumes "0 \<le> a \<and> a \<le> 255" "- m \<le> b" "b \<le> m"
  shows "- (255 * m) \<le> a * b" "a * b \<le> 255 * m"
proof -
  have m: "0 \<le> m" using assms(2,3) by linarith
  have "a * b \<le> a * m" using assms by (intro mult_left_mono) simp_all
  also have "a * m \<le> 255 * m" using assms m by (intro mult_right_mono) simp_all
  finally show "a * b \<le> 255 * m" .
  have "a * (- m) \<le> a * b" using assms by (intro mult_left_mono) simp_all
  moreover have "a * m \<le> 255 * m" using assms m by (intro mult_right_mono) simp_all
  ultimately show "- (255 * m) \<le> a * b" by simp
qed

lemma chroma_prod_bound:
  fixes k c :: u8
  shows "- 32640 \<le> uint k * (uint c - 128)" "uint k * (uint c - 128) \<le> 32640"
  using prod_bound [OF uint_u8_bounds [of k], of 128 "uint c - 128"] uint_u8_bounds [of c]
  by simp_all

lemma luma_prod_bound:
  fixes k y o' :: u8
  shows "- 65025 \<le> uint k * (uint y - uint o')" "uint k * (uint y - uint o') \<le> 65025"
  using prod_bound [OF uint_u8_bounds [of k], of 255 "uint y - uint o'"]
    uint_u8_bounds [of y] uint_u8_bounds [of o']
  by simp_all

lemma div_bounds:
  fixes z :: int
  assumes "- 32640 \<le> z" "z \<le> 32640"
  shows "- 510 \<le> z div 64" "z div 64 \<le> 510"
proof -
  have "(- 32640) div 64 \<le> z div 64" using assms(1) by (intro zdiv_mono1) simp_all
  then show "- 510 \<le> z div 64" by simp
  have "z div 64 \<le> 32640 div 64" using assms(2) by (intro zdiv_mono1) simp_all
  then show "z div 64 \<le> 510" by simp
qed

lemma div_bounds128:
  fixes z :: int
  assumes "- 65280 \<le> z" "z \<le> 65280"
  shows "- 510 \<le> z div 128" "z div 128 \<le> 510"
proof -
  have "(- 65280) div 128 \<le> z div 128" using assms(1) by (intro zdiv_mono1) simp_all
  then show "- 510 \<le> z div 128" by simp
  have "z div 128 \<le> 65280 div 128" using assms(2) by (intro zdiv_mono1) simp_all
  then show "z div 128 \<le> 510" by simp
qed

lemma spec_B_offset_range:
  fixes c :: u8
  shows "- 510 \<le> spec_B_offset P (uint c) \<and> spec_B_offset P (uint c) \<le> 510"
  unfolding spec_B_offset_def using div_bounds [OF chroma_prod_bound] by simp

lemma spec_R_offset_range:
  fixes c :: u8
  shows "- 510 \<le> spec_R_offset P (uint c) \<and> spec_R_offset P (uint c) \<le> 510"
  unfolding spec_R_offset_def using div_bounds [OF chroma_prod_bound] by simp

lemma spec_G_offset_range:
  fixes u v :: u8
  shows "- 510 \<le> spec_G_offset P (uint u) (uint v) \<and> spec_G_offset P (uint u) (uint v) \<le> 510"
proof -
  have "- 65280 \<le> uint (g_cb_factor P) * (uint u - 128) + uint (g_cr_factor P) * (uint v - 128)"
    "uint (g_cb_factor P) * (uint u - 128) + uint (g_cr_factor P) * (uint v - 128) \<le> 65280"
    using chroma_prod_bound [of "g_cb_factor P" u] chroma_prod_bound [of "g_cr_factor P" v]
    by linarith+
  from div_bounds128 [OF this] show ?thesis by (simp add: spec_G_offset_def)
qed

lemma spec_Y'_range:
  fixes y :: u8
  shows "- 510 \<le> spec_Y' P (uint y) \<and> spec_Y' P (uint y) \<le> 510"
proof -
  have "- 65280 \<le> uint (YUV2RGBParam.y_factor P) * (uint y - uint (YUV2RGBParam.y_offset P))"
    "uint (YUV2RGBParam.y_factor P) * (uint y - uint (YUV2RGBParam.y_offset P)) \<le> 65280"
    using luma_prod_bound [of "YUV2RGBParam.y_factor P" y "YUV2RGBParam.y_offset P"] by linarith+
  from div_bounds128 [OF this] show ?thesis by (simp add: spec_Y'_def)
qed

lemma sint_b_cb_offset:
  fixes c :: u8
  shows "sint (b_cb_offset P (uv_tmp c)) = spec_B_offset P (uint c)"
proof -
  have "sint (word_of_int (spec_B_offset P (uint c)) :: i16) = spec_B_offset P (uint c)"
    using spec_B_offset_range [of P c] by (intro i16_of_int_id) linarith+
  then show ?thesis
    by (simp add: b_cb_offset_def sint_uv_tmp spec_B_offset_def drop_bit_eq_div)
qed

lemma sint_r_cr_offset:
  fixes c :: u8
  shows "sint (r_cr_offset P (uv_tmp c)) = spec_R_offset P (uint c)"
proof -
  have "sint (word_of_int (spec_R_offset P (uint c)) :: i16) = spec_R_offset P (uint c)"
    using spec_R_offset_range [of P c] by (intro i16_of_int_id) linarith+
  then show ?thesis
    by (simp add: r_cr_offset_def sint_uv_tmp spec_R_offset_def drop_bit_eq_div)
qed

lemma sint_g_cbcr_offset:
  fixes u v :: u8
  shows "sint (g_cbcr_offset P (uv_tmp u) (uv_tmp v)) = spec_G_offset P (uint u) (uint v)"
proof -
  have "sint (word_of_int (spec_G_offset P (uint u) (uint v)) :: i16) = spec_G_offset P (uint u) (uint v)"
    using spec_G_offset_range [of P u v] by (intro i16_of_int_id) linarith+
  then show ?thesis
    by (simp add: g_cbcr_offset_def sint_uv_tmp spec_G_offset_def drop_bit_eq_div)
qed

lemma sint_y_tmp16:
  fixes y :: u8
  shows "sint (y_tmp16 P y) = spec_Y' P (uint y)"
proof -
  have "sint (word_of_int (spec_Y' P (uint y)) :: i16) = spec_Y' P (uint y)"
    using spec_Y'_range [of P y] by (intro i16_of_int_id) linarith+
  then show ?thesis
    by (simp add: y_tmp16_def spec_Y'_def drop_bit_eq_div)
qed

lemma clamp_saturate: "clamp v = word_of_int (spec_saturate (sint v))"
  by (simp add: clamp_def spec_saturate_def)

lemma spec_saturate_range: "0 \<le> spec_saturate x \<and> spec_saturate x \<le> 255"
  by (simp add: spec_saturate_def)

lemma uint_clamp: "uint (clamp v) = spec_saturate (sint v)"
  unfolding clamp_saturate using spec_saturate_range [of "sint v"] by (intro u8_of_int_id) simp_all

lemma pixel_R_exact:
  "uint (pixel_R (y_tmp16 P y) (r_cr_offset P (uv_tmp v))) = spec_R P y u v"
proof -
  have "sint (word_of_int (spec_Y' P (uint y) + spec_R_offset P (uint v)) :: i16)
      = spec_Y' P (uint y) + spec_R_offset P (uint v)"
    using spec_Y'_range [of P y] spec_R_offset_range [of P v] by (intro i16_of_int_id) linarith+
  then show ?thesis
    by (simp add: pixel_R_def uint_clamp sint_y_tmp16 sint_r_cr_offset spec_R_def)
qed

lemma pixel_G_exact:
  "uint (pixel_G (y_tmp16 P y) (g_cbcr_offset P (uv_tmp u) (uv_tmp v))) = spec_G P y u v"
proof -
  have "sint (word_of_int (spec_Y' P (uint y) - spec_G_offset P (uint u) (uint v)) :: i16)
      = spec_Y' P (uint y) - spec_G_offset P (uint u) (uint v)"
    using spec_Y'_range [of P y] spec_G_offset_range [of P u v] by (intro i16_of_int_id) linarith+
  then show ?thesis
    by (simp add: pixel_G_def uint_clamp sint_y_tmp16 sint_g_cbcr_offset spec_G_def)
qed

lemma pixel_B_exact:
  "uint (pixel_B (y_tmp16 P y) (b_cb_offset P (uv_tmp u))) = spec_B P y u v"
proof -
  have "sint (word_of_int (spec_Y' P (uint y) + spec_B_offset P (uint u)) :: i16)
      = spec_Y' P (uint y) + spec_B_offset P (uint u)"
    using spec_Y'_range [of P y] spec_B_offset_range [of P u] by (intro i16_of_int_id) linarith+
  then show ?thesis
    by (simp add: pixel_B_def uint_clamp sint_y_tmp16 sint_b_cb_offset spec_B_def)
qed

section \<open>Inverse conversion: one block\<close>

lemma inv_block_Inr:
  assumes "yuv420_rgb24_block P Y U V y1 y2 up vp p1 p2 RGB = Inr RGB'"
  shows "y1 + 1 < length Y" "y2 + 1 < length Y" "up < length U" "vp < length V"
    "p1 + 5 < length RGB" "p2 + 5 < length RGB"
    "RGB' = RGB
      [p1 := pixel_R (y_tmp16 P (Y ! y1)) (r_cr_offset P (uv_tmp (V ! vp))),
       p1 + 1 := pixel_G (y_tmp16 P (Y ! y1)) (g_cbcr_offset P (uv_tmp (U ! up)) (uv_tmp (V ! vp))),
       p1 + 2 := pixel_B (y_tmp16 P (Y ! y1)) (b_cb_offset P (uv_tmp (U ! up))),
       p1 + 3 := pixel_R (y_tmp16 P (Y ! (y1 + 1))) (r_cr_offset P (uv_tmp (V ! vp))),
       p1 + 4 := pixel_G (y_tmp16 P (Y ! (y1 + 1))) (g_cbcr_offset P (uv_tmp (U ! up)) (uv_tmp (V ! vp))),
       p1 + 5 := pixel_B (y_tmp16 P (Y ! (y1 + 1))) (b_cb_offset P (uv_tmp (U ! up))),
       p2 := pixel_R (y_tmp16 P (Y ! y2)) (r_cr_offset P (uv_tmp (V ! vp))),
       p2 + 1 := pixel_G (y_tmp16 P (Y ! y2)) (g_cbcr_offset P (uv_tmp (U ! up)) (uv_tmp (V ! vp))),
       p2 + 2 := pixel_B (y_tmp16 P (Y ! y2)) (b_cb_offset P (uv_tmp (U ! up))),
       p2 + 3 := pixel_R (y_tmp16 P (Y ! (y2 + 1))) (r_cr_offset P (uv_tmp (V ! vp))),
       p2 + 4 := pixel_G (y_tmp16 P (Y ! (y2 + 1))) (g_cbcr_offset P (uv_tmp (U ! up)) (uv_tmp (V ! vp))),
       p2 + 5 := pixel_B (y_tmp16 P (Y ! (y2 + 1))) (b_cb_offset P (uv_tmp (U ! up)))]"
  using assms by (auto simp add: yuv420_rgb24_block_def Let_def split: if_splits)

lemma pixel_R_spec:
  "pixel_R (y_tmp16 P y) (r_cr_offset P (uv_tmp v)) = word_of_int (spec_R P y u v)"
  using pixel_R_exact [of P y v u, symmetric] by simp

lemma pixel_G_spec:
  "pixel_G (y_tmp16 P y) (g_cbcr_offset P (uv_tmp u) (uv_tmp v)) = word_of_int (spec_G P y u v)"
  using pixel_G_exact [of P y u v, symmetric] by simp

lemma pixel_B_spec:
  "pixel_B (y_tmp16 P y) (b_cb_offset P (uv_tmp u)) = word_of_int (spec_B P y u v)"
  using pixel_B_exact [of P y u v, symmetric] by simp

text \<open>The twelve bytes a block writes are the formulas of section 4.3, in unbounded
  integers, of its four luma samples and its single U and V sample.\<close>

lemma inv_block_formulas:
  assumes "yuv420_rgb24_block P Y U V y_ptr1 y_ptr2 u_ptr v_ptr rgb_ptr1 rgb_ptr2 RGB = Inr RGB'"
  shows "RGB' = RGB
      [rgb_ptr1 := word_of_int (spec_R P (Y ! y_ptr1) (U ! u_ptr) (V ! v_ptr)),
       rgb_ptr1 + 1 := word_of_int (spec_G P (Y ! y_ptr1) (U ! u_ptr) (V ! v_ptr)),
       rgb_ptr1 + 2 := word_of_int (spec_B P (Y ! y_ptr1) (U ! u_ptr) (V ! v_ptr)),
       rgb_ptr1 + 3 := word_of_int (spec_R P (Y ! (y_ptr1 + 1)) (U ! u_ptr) (V ! v_ptr)),
       rgb_ptr1 + 4 := word_of_int (spec_G P (Y ! (y_ptr1 + 1)) (U ! u_ptr) (V ! v_ptr)),
       rgb_ptr1 + 5 := word_of_int (spec_B P (Y ! (y_ptr1 + 1)) (U ! u_ptr) (V ! v_ptr)),
       rgb_ptr2 := word_of_int (spec_R P (Y ! y_ptr2) (U ! u_ptr) (V ! v_ptr)),
       rgb_ptr2 + 1 := word_of_int (spec_G P (Y ! y_ptr2) (U ! u_ptr) (V ! v_ptr)),
       rgb_ptr2 + 2 := word_of_int (spec_B P (Y ! y_ptr2) (U ! u_ptr) (V ! v_ptr)),
       rgb_ptr2 + 3 := word_of_int (spec_R P (Y ! (y_ptr2 + 1)) (U ! u_ptr) (V ! v_ptr)),
       rgb_ptr2 + 4 := word_of_int (spec_G P (Y ! (y_ptr2 + 1)) (U ! u_ptr) (V ! v_ptr)),
       rgb_ptr2 + 5 := word_of_int (spec_B P (Y ! (y_ptr2 + 1)) (U ! u_ptr) (V ! v_ptr))]"
  unfolding inv_block_Inr(7) [OF assms]
  by (simp only: pixel_R_spec [where u = "U ! u_ptr"] pixel_G_spec pixel_B_spec [where v = "V ! v_ptr"])

lemma inv_block_pixels:
  assumes blk: "yuv420_rgb24_block P Y U V y1 y2 up vp p1 p2 RGB = Inr RGB'"
    and sep: "p1 + 6 \<le> p2"
  shows "\<forall>j < 2. \<forall>k < 3.
    RGB' ! (p1 + 3 * j + k) = spec_pixel P (Y ! (y1 + j)) (U ! up) (V ! vp) ! k \<and>
    RGB' ! (p2 + 3 * j + k) = spec_pixel P (Y ! (y2 + j)) (U ! up) (V ! vp) ! k"
proof -
  note B = inv_block_Inr(5,6) [OF blk]
  note E = inv_block_formulas [OF blk]
  have a: "RGB' ! p1 = spec_pixel P (Y ! y1) (U ! up) (V ! vp) ! 0"
    "RGB' ! (p1 + 1) = spec_pixel P (Y ! y1) (U ! up) (V ! vp) ! 1"
    "RGB' ! (p1 + 2) = spec_pixel P (Y ! y1) (U ! up) (V ! vp) ! 2"
    "RGB' ! (p1 + 3) = spec_pixel P (Y ! (y1 + 1)) (U ! up) (V ! vp) ! 0"
    "RGB' ! (p1 + 4) = spec_pixel P (Y ! (y1 + 1)) (U ! up) (V ! vp) ! 1"
    "RGB' ! (p1 + 5) = spec_pixel P (Y ! (y1 + 1)) (U ! up) (V ! vp) ! 2"
    "RGB' ! p2 = spec_pixel P (Y ! y2) (U ! up) (V ! vp) ! 0"
    "RGB' ! (p2 + 1) = spec_pixel P (Y ! y2) (U ! up) (V ! vp) ! 1"
    "RGB' ! (p2 + 2) = spec_pixel P (Y ! y2) (U ! up) (V ! vp) ! 2"
    "RGB' ! (p2 + 3) = spec_pixel P (Y ! (y2 + 1)) (U ! up) (V ! vp) ! 0"
    "RGB' ! (p2 + 4) = spec_pixel P (Y ! (y2 + 1)) (U ! up) (V ! vp) ! 1"
    "RGB' ! (p2 + 5) = spec_pixel P (Y ! (y2 + 1)) (U ! up) (V ! vp) ! 2"
    unfolding E spec_pixel_def using B sep by simp_all
  show ?thesis
  proof (intro allI impI)
    fix j k :: nat assume "j < 2" "k < 3"
    then have "(j = 0 \<or> j = 1) \<and> (k = 0 \<or> k = 1 \<or> k = 2)" by auto
    then show "RGB' ! (p1 + 3 * j + k) = spec_pixel P (Y ! (y1 + j)) (U ! up) (V ! vp) ! k \<and>
      RGB' ! (p2 + 3 * j + k) = spec_pixel P (Y ! (y2 + j)) (U ! up) (V ! vp) ! k"
      using a by (elim conjE disjE) (simp_all add: add.commute)
  qed
qed

text \<open>
  Claim C6.  \<^verbatim>\<open>clamp\<close> clips its argument to \<open>[0, 255]\<close>: it returns 0 for a negative
  argument, 255 for one above 255 and the argument itself otherwise; it is defined for
  every \<^verbatim>\<open>int16_t\<close>, so it never fails.  Every byte the inverse conversion writes is such
  a clipped value of the exact sum \<open>Y' + R-offset\<close>, \<open>Y' - G-offset\<close> or \<open>Y' + B-offset\<close>
  (the argument of \<^verbatim>\<open>clamp\<close> did not wrap), hence in \<open>[0, 255]\<close>, for all bytes Y, U, V
  and every parameter record; in particular for Y, U, V in \<open>{0, 128, 255}\<close>.
\<close>

theorem saturate_clips:
  fixes y u v :: u8
  shows "uint (clamp w) = (if sint w < 0 then 0 else if 255 < sint w then 255 else sint w) \<and>
    0 \<le> uint (clamp w) \<and> uint (clamp w) \<le> 255 \<and>
    uint (pixel_R (y_tmp16 P y) (r_cr_offset P (uv_tmp v))) =
      spec_saturate (spec_Y' P (uint y) + spec_R_offset P (uint v)) \<and>
    uint (pixel_G (y_tmp16 P y) (g_cbcr_offset P (uv_tmp u) (uv_tmp v))) =
      spec_saturate (spec_Y' P (uint y) - spec_G_offset P (uint u) (uint v)) \<and>
    uint (pixel_B (y_tmp16 P y) (b_cb_offset P (uv_tmp u))) =
      spec_saturate (spec_Y' P (uint y) + spec_B_offset P (uint u)) \<and>
    0 \<le> spec_saturate x \<and> spec_saturate x \<le> 255"
  using pixel_R_exact [of P y v u] pixel_G_exact [of P y u v] pixel_B_exact [of P y u v]
    spec_saturate_range [of x] spec_saturate_range [of "sint w"]
  by (simp add: uint_clamp spec_R_def spec_G_def spec_B_def) (simp add: spec_saturate_def)

section \<open>The loops: what they leave unchanged\<close>

lemma loop_step:
  fixes x n :: u32
  assumes "x < n - 1" "n \<noteq> 0"
  shows "unat x + 1 < unat n" "unat (x + 1) = unat x + 1" "unat (x + 2) = unat x + 2"
proof -
  have n1: "unat (n - 1) = unat n - 1" using assms(2) by (simp add: unat_minus_one)
  have "unat x < unat (n - 1)" using assms(1) by (simp add: word_less_nat_alt)
  with n1 show lt: "unat x + 1 < unat n" by simp
  have b: "unat n < 2 ^ 32" using unsigned_less [of n, where ?'a = nat] by simp
  have "unat x + unat (1 :: u32) < 2 ^ LENGTH(32)" using lt b by simp
  then show "unat (x + 1) = unat x + 1" by (simp add: unat_add_lem [THEN iffD1])
  have "unat x + unat (2 :: u32) < 2 ^ LENGTH(32)" using lt b by simp
  then show "unat (x + 2) = unat x + 2" by (simp add: unat_add_lem [THEN iffD1])
qed

lemma block_frame:
  assumes "rgb24_yuv420_block P RGB p1 p2 y1 y2 up vp s = Inr s'"
  shows "length (Y_plane s') = length (Y_plane s)" "length (U_plane s') = length (U_plane s)"
    "length (V_plane s') = length (V_plane s)"
    "i \<noteq> y1 \<Longrightarrow> i \<noteq> y1 + 1 \<Longrightarrow> i \<noteq> y2 \<Longrightarrow> i \<noteq> y2 + 1 \<Longrightarrow> Y_plane s' ! i = Y_plane s ! i"
    "i \<noteq> up \<Longrightarrow> U_plane s' ! i = U_plane s ! i"
    "i \<noteq> vp \<Longrightarrow> V_plane s' ! i = V_plane s ! i"
  unfolding block_Inr(7,8,9) [OF assms] by simp_all

lemma row_frame:
  assumes "rgb24_yuv420_row P W RGB x p1 p2 y1 y2 up vp s = Inr s'" and "W \<noteq> 0"
  shows "length (Y_plane s') = length (Y_plane s) \<and> length (U_plane s') = length (U_plane s) \<and>
    length (V_plane s') = length (V_plane s) \<and>
    (\<forall>i. (\<forall>d < 2 * ((unat W - unat x) div 2). i \<noteq> y1 + d \<and> i \<noteq> y2 + d)
        \<longrightarrow> Y_plane s' ! i = Y_plane s ! i) \<and>
    (\<forall>i. (\<forall>d < (unat W - unat x) div 2. i \<noteq> up + d) \<longrightarrow> U_plane s' ! i = U_plane s ! i) \<and>
    (\<forall>i. (\<forall>d < (unat W - unat x) div 2. i \<noteq> vp + d) \<longrightarrow> V_plane s' ! i = V_plane s ! i)"
  using assms
proof (induction P W RGB x p1 p2 y1 y2 up vp s rule: rgb24_yuv420_row.induct)
  case (1 P W RGB x p1 p2 y1 y2 up vp s)
  show ?case
  proof (cases "x < W - 1")
    case False
    with "1.prems" have "s' = s" by (subst (asm) rgb24_yuv420_row.simps) simp
    then show ?thesis by simp
  next
    case True
    with "1.prems" obtain s1 where
      blk: "rgb24_yuv420_block P RGB p1 p2 y1 y2 up vp s = Inr s1" and
      rest: "rgb24_yuv420_row P W RGB (x + 2) (p1 + 6) (p2 + 6) (y1 + 2) (y2 + 2) (up + 1) (vp + 1) s1
        = Inr s'"
      by (subst (asm) rgb24_yuv420_row.simps) (auto split: sum.splits)
    note IH = "1.IH" [OF True blk rest \<open>W \<noteq> 0\<close>]
    note st = loop_step [OF True \<open>W \<noteq> 0\<close>]
    note F = block_frame [OF blk]
    define N where "N = (unat W - unat x) div 2"
    have N: "(unat W - unat (x + 2)) div 2 = N - 1" "1 \<le> N"
      using st(1) unfolding st(3) N_def by simp_all
    have Y: "Y_plane s' ! i = Y_plane s ! i" if h: "\<forall>d < 2 * N. i \<noteq> y1 + d \<and> i \<noteq> y2 + d" for i
    proof -
      have "i \<noteq> y1 \<and> i \<noteq> y2" using h [rule_format, of 0] N(2) by simp
      moreover have "i \<noteq> y1 + 1 \<and> i \<noteq> y2 + 1" using h [rule_format, of 1] N(2) by simp
      ultimately have a: "Y_plane s1 ! i = Y_plane s ! i" using F(4) by simp
      have "\<forall>d < 2 * (N - 1). i \<noteq> y1 + 2 + d \<and> i \<noteq> y2 + 2 + d"
      proof (intro allI impI)
        fix d assume "d < 2 * (N - 1)"
        then have "d + 2 < 2 * N" using N(2) by simp
        from h [rule_format, OF this] show "i \<noteq> y1 + 2 + d \<and> i \<noteq> y2 + 2 + d" by simp
      qed
      with IH have "Y_plane s' ! i = Y_plane s1 ! i" unfolding N(1) by blast
      with a show ?thesis by simp
    qed
    have U: "U_plane s' ! i = U_plane s ! i" if h: "\<forall>d < N. i \<noteq> up + d" for i
    proof -
      have "i \<noteq> up" using h [rule_format, of 0] N(2) by simp
      then have a: "U_plane s1 ! i = U_plane s ! i" using F(5) by simp
      have "\<forall>d < N - 1. i \<noteq> up + 1 + d"
      proof (intro allI impI)
        fix d assume "d < N - 1"
        then have "d + 1 < N" by simp
        from h [rule_format, OF this] show "i \<noteq> up + 1 + d" by simp
      qed
      with IH have "U_plane s' ! i = U_plane s1 ! i" unfolding N(1) by blast
      with a show ?thesis by simp
    qed
    have V: "V_plane s' ! i = V_plane s ! i" if h: "\<forall>d < N. i \<noteq> vp + d" for i
    proof -
      have "i \<noteq> vp" using h [rule_format, of 0] N(2) by simp
      then have a: "V_plane s1 ! i = V_plane s ! i" using F(6) by simp
      have "\<forall>d < N - 1. i \<noteq> vp + 1 + d"
      proof (intro allI impI)
        fix d assume "d < N - 1"
        then have "d + 1 < N" by simp
        from h [rule_format, OF this] show "i \<noteq> vp + 1 + d" by simp
      qed
      with IH have "V_plane s' ! i = V_plane s1 ! i" unfolding N(1) by blast
      with a show ?thesis by simp
    qed
    from IH F(1-3) Y U V show ?thesis unfolding N_def by simp
  qed
qed

lemma rows_frame:
  assumes "W \<noteq> 0" "H \<noteq> 0"
  shows "even (unat y) \<Longrightarrow>
    rgb24_yuv420_rows P W H RGB rs ys uvs y s = Some (Inr s') \<Longrightarrow>
    length (Y_plane s') = length (Y_plane s) \<and> length (U_plane s') = length (U_plane s) \<and>
    length (V_plane s') = length (V_plane s) \<and>
    (\<forall>i. (\<forall>r c. unat y \<le> r \<and> r < 2 * (unat H div 2) \<and> c < 2 * (unat W div 2)
            \<longrightarrow> i \<noteq> unat (of_nat r * ys) + c) \<longrightarrow> Y_plane s' ! i = Y_plane s ! i) \<and>
    (\<forall>i. (\<forall>r c. unat y div 2 \<le> r \<and> r < unat H div 2 \<and> c < unat W div 2
            \<longrightarrow> i \<noteq> unat (of_nat r * uvs) + c)
          \<longrightarrow> U_plane s' ! i = U_plane s ! i \<and> V_plane s' ! i = V_plane s ! i)"
proof (induction "unat H - unat y" arbitrary: y s rule: less_induct)
  case less
  show ?case
  proof (cases "y < H - 1")
    case False
    with less.prems(2) have "s' = s" by (subst (asm) rgb24_yuv420_rows.simps) simp
    then show ?thesis by simp
  next
    case True
    note st = loop_step [OF True \<open>H \<noteq> 0\<close>]
    from True less.prems(2) obtain s1 where
      row: "rgb24_yuv420_row P W RGB 0 (unat (y * rs)) (unat ((y + 1) * rs))
              (unat (y * ys)) (unat ((y + 1) * ys))
              (unat ((y div 2) * uvs)) (unat ((y div 2) * uvs)) s = Inr s1" and
      rest: "rgb24_yuv420_rows P W H RGB rs ys uvs (y + 2) s1 = Some (Inr s')"
      by (subst (asm) rgb24_yuv420_rows.simps) (auto split: sum.splits)
    have ev: "even (unat (y + 2))" using less.prems(1) unfolding st(3) by simp
    have "unat H - unat (y + 2) < unat H - unat y" using st(1) unfolding st(3) by simp
    note IH = less.hyps [OF this ev rest]
    note R = row_frame [OF row \<open>W \<noteq> 0\<close>]
    have rowY: "unat y + 1 < 2 * (unat H div 2)"
      using less.prems(1) st(1) by presburger
    have rowU: "unat y div 2 < unat H div 2"
      using less.prems(1) st(1) by presburger
    have y2: "unat (y div 2) = unat y div 2" by (simp add: unat_div)
    have Y: "Y_plane s' ! i = Y_plane s ! i"
      if h: "\<forall>r c. unat y \<le> r \<and> r < 2 * (unat H div 2) \<and> c < 2 * (unat W div 2)
            \<longrightarrow> i \<noteq> unat (of_nat r * ys) + c" for i
    proof -
      have "\<forall>d < 2 * ((unat W - unat (0 :: u32)) div 2).
              i \<noteq> unat (y * ys) + d \<and> i \<noteq> unat ((y + 1) * ys) + d"
      proof (intro allI impI)
        fix d assume d: "d < 2 * ((unat W - unat (0 :: u32)) div 2)"
        then have d': "d < 2 * (unat W div 2)" by simp
        have "i \<noteq> unat (of_nat (unat y) * ys) + d"
          using h [rule_format, of "unat y" d] rowY d' by simp
        moreover have "i \<noteq> unat (of_nat (unat y + 1) * ys) + d"
          using h [rule_format, of "unat y + 1" d] rowY d' by simp
        ultimately show "i \<noteq> unat (y * ys) + d \<and> i \<noteq> unat ((y + 1) * ys) + d"
          by (simp add: add.commute)
      qed
      with R have a: "Y_plane s1 ! i = Y_plane s ! i" by blast
      have "\<forall>r c. unat (y + 2) \<le> r \<and> r < 2 * (unat H div 2) \<and> c < 2 * (unat W div 2)
            \<longrightarrow> i \<noteq> unat (of_nat r * ys) + c"
        using h unfolding st(3) by simp
      with IH have "Y_plane s' ! i = Y_plane s1 ! i" by blast
      with a show ?thesis by simp
    qed
    have UV: "U_plane s' ! i = U_plane s ! i \<and> V_plane s' ! i = V_plane s ! i"
      if h: "\<forall>r c. unat y div 2 \<le> r \<and> r < unat H div 2 \<and> c < unat W div 2
            \<longrightarrow> i \<noteq> unat (of_nat r * uvs) + c" for i
    proof -
      have "\<forall>d < (unat W - unat (0 :: u32)) div 2. i \<noteq> unat ((y div 2) * uvs) + d"
      proof (intro allI impI)
        fix d assume d: "d < (unat W - unat (0 :: u32)) div 2"
        then have d': "d < unat W div 2" by simp
        have "i \<noteq> unat (of_nat (unat (y div 2)) * uvs) + d"
          using h [rule_format, of "unat (y div 2)" d] rowU d' unfolding y2 by simp
        then show "i \<noteq> unat ((y div 2) * uvs) + d" by simp
      qed
      with R have a: "U_plane s1 ! i = U_plane s ! i \<and> V_plane s1 ! i = V_plane s ! i" by blast
      have "unat (y + 2) div 2 = unat y div 2 + 1" unfolding st(3) by simp
      then have "\<forall>r c. unat (y + 2) div 2 \<le> r \<and> r < unat H div 2 \<and> c < unat W div 2
            \<longrightarrow> i \<noteq> unat (of_nat r * uvs) + c"
        using h by simp
      with IH have "U_plane s' ! i = U_plane s1 ! i \<and> V_plane s' ! i = V_plane s1 ! i" by blast
      with a show ?thesis by simp
    qed
    from IH R Y UV show ?thesis by simp
  qed
qed

lemma inv_block_frame:
  assumes "yuv420_rgb24_block P Y U V y1 y2 up vp p1 p2 RGB = Inr RGB'"
  shows "length RGB' = length RGB"
    "\<forall>d < 6. i \<noteq> p1 + d \<and> i \<noteq> p2 + d \<Longrightarrow> RGB' ! i = RGB ! i"
proof -
  show "length RGB' = length RGB" unfolding inv_block_Inr(7) [OF assms] by simp
  assume h: "\<forall>d < 6. i \<noteq> p1 + d \<and> i \<noteq> p2 + d"
  have "p1 \<noteq> i \<and> p2 \<noteq> i" using h [rule_format, of 0] by auto
  moreover have "p1 + 1 \<noteq> i \<and> p2 + 1 \<noteq> i" using h [rule_format, of 1] by auto
  moreover have "p1 + 2 \<noteq> i \<and> p2 + 2 \<noteq> i" using h [rule_format, of 2] by auto
  moreover have "p1 + 3 \<noteq> i \<and> p2 + 3 \<noteq> i" using h [rule_format, of 3] by auto
  moreover have "p1 + 4 \<noteq> i \<and> p2 + 4 \<noteq> i" using h [rule_format, of 4] by auto
  moreover have "p1 + 5 \<noteq> i \<and> p2 + 5 \<noteq> i" using h [rule_format, of 5] by auto
  ultimately show "RGB' ! i = RGB ! i"
    unfolding inv_block_Inr(7) [OF assms] by simp
qed

lemma inv_row_frame:
  assumes "yuv420_rgb24_row P W Y U V x y1 y2 up vp p1 p2 RGB = Inr RGB'" and "W \<noteq> 0"
  shows "length RGB' = length RGB \<and>
    (\<forall>i. (\<forall>d < 6 * ((unat W - unat x) div 2). i \<noteq> p1 + d \<and> i \<noteq> p2 + d)
        \<longrightarrow> RGB' ! i = RGB ! i)"
  using assms
proof (induction P W Y U V x y1 y2 up vp p1 p2 RGB rule: yuv420_rgb24_row.induct)
  case (1 P W Y U V x y1 y2 up vp p1 p2 RGB)
  show ?case
  proof (cases "x < W - 1")
    case False
    with "1.prems" have "RGB' = RGB" by (subst (asm) yuv420_rgb24_row.simps) simp
    then show ?thesis by simp
  next
    case True
    with "1.prems" obtain RGB1 where
      blk: "yuv420_rgb24_block P Y U V y1 y2 up vp p1 p2 RGB = Inr RGB1" and
      rest: "yuv420_rgb24_row P W Y U V (x + 2) (y1 + 2) (y2 + 2) (up + 1) (vp + 1)
               (p1 + 6) (p2 + 6) RGB1 = Inr RGB'"
      by (subst (asm) yuv420_rgb24_row.simps) (auto split: sum.splits)
    note IH = "1.IH" [OF True blk rest \<open>W \<noteq> 0\<close>]
    note st = loop_step [OF True \<open>W \<noteq> 0\<close>]
    note F = inv_block_frame [OF blk]
    define N where "N = (unat W - unat x) div 2"
    have N: "(unat W - unat (x + 2)) div 2 = N - 1" "1 \<le> N"
      using st(1) unfolding st(3) N_def by simp_all
    have "RGB' ! i = RGB ! i" if h: "\<forall>d < 6 * N. i \<noteq> p1 + d \<and> i \<noteq> p2 + d" for i
    proof -
      have "\<forall>d < 6. i \<noteq> p1 + d \<and> i \<noteq> p2 + d" using h N(2) by simp
      then have a: "RGB1 ! i = RGB ! i" by (rule F(2))
      have "\<forall>d < 6 * (N - 1). i \<noteq> p1 + 6 + d \<and> i \<noteq> p2 + 6 + d"
      proof (intro allI impI)
        fix d assume "d < 6 * (N - 1)"
        then have "d + 6 < 6 * N" using N(2) by simp
        from h [rule_format, OF this] show "i \<noteq> p1 + 6 + d \<and> i \<noteq> p2 + 6 + d" by simp
      qed
      with IH have "RGB' ! i = RGB1 ! i" unfolding N(1) by blast
      with a show ?thesis by simp
    qed
    with IH F(1) show ?thesis unfolding N_def by simp
  qed
qed

lemma inv_rows_frame:
  assumes "W \<noteq> 0" "H \<noteq> 0"
  shows "even (unat y) \<Longrightarrow>
    yuv420_rgb24_rows P W H Y U V ys uvs rs y RGB = Some (Inr RGB') \<Longrightarrow>
    length RGB' = length RGB \<and>
    (\<forall>i. (\<forall>r c. unat y \<le> r \<and> r < 2 * (unat H div 2) \<and> c < 6 * (unat W div 2)
            \<longrightarrow> i \<noteq> unat (of_nat r * rs) + c) \<longrightarrow> RGB' ! i = RGB ! i)"
proof (induction "unat H - unat y" arbitrary: y RGB rule: less_induct)
  case less
  show ?case
  proof (cases "y < H - 1")
    case False
    with less.prems(2) have "RGB' = RGB" by (subst (asm) yuv420_rgb24_rows.simps) simp
    then show ?thesis by simp
  next
    case True
    note st = loop_step [OF True \<open>H \<noteq> 0\<close>]
    from True less.prems(2) obtain RGB1 where
      row: "yuv420_rgb24_row P W Y U V 0 (unat (y * ys)) (unat ((y + 1) * ys))
              (unat ((y div 2) * uvs)) (unat ((y div 2) * uvs))
              (unat (y * rs)) (unat ((y + 1) * rs)) RGB = Inr RGB1" and
      rest: "yuv420_rgb24_rows P W H Y U V ys uvs rs (y + 2) RGB1 = Some (Inr RGB')"
      by (subst (asm) yuv420_rgb24_rows.simps) (auto split: sum.splits)
    have ev: "even (unat (y + 2))" using less.prems(1) unfolding st(3) by simp
    have "unat H - unat (y + 2) < unat H - unat y" using st(1) unfolding st(3) by simp
    note IH = less.hyps [OF this ev rest]
    note R = inv_row_frame [OF row \<open>W \<noteq> 0\<close>]
    have rowY: "unat y + 1 < 2 * (unat H div 2)"
      using less.prems(1) st(1) by presburger
    have "RGB' ! i = RGB ! i"
      if h: "\<forall>r c. unat y \<le> r \<and> r < 2 * (unat H div 2) \<and> c < 6 * (unat W div 2)
            \<longrightarrow> i \<noteq> unat (of_nat r * rs) + c" for i
    proof -
      have "\<forall>d < 6 * ((unat W - unat (0 :: u32)) div 2).
              i \<noteq> unat (y * rs) + d \<and> i \<noteq> unat ((y + 1) * rs) + d"
      proof (intro allI impI)
        fix d assume d: "d < 6 * ((unat W - unat (0 :: u32)) div 2)"
        then have d': "d < 6 * (unat W div 2)" by simp
        have "i \<noteq> unat (of_nat (unat y) * rs) + d"
          using h [rule_format, of "unat y" d] rowY d' by simp
        moreover have "i \<noteq> unat (of_nat (unat y + 1) * rs) + d"
          using h [rule_format, of "unat y + 1" d] rowY d' by simp
        ultimately show "i \<noteq> unat (y * rs) + d \<and> i \<noteq> unat ((y + 1) * rs) + d"
          by (simp add: add.commute)
      qed
      with R have a: "RGB1 ! i = RGB ! i" by blast
      have "\<forall>r c. unat (y + 2) \<le> r \<and> r < 2 * (unat H div 2) \<and> c < 6 * (unat W div 2)
            \<longrightarrow> i \<noteq> unat (of_nat r * rs) + c"
        using h unfolding st(3) by simp
      with IH have "RGB' ! i = RGB1 ! i" by blast
      with a show ?thesis by simp
    qed
    with IH R show ?thesis by simp
  qed
qed

lemma outside_block_region:
  assumes nowrap: "R * unat stride < 2 ^ 32" and C: "C \<le> unat stride"
    and r: "r < R" and c: "c < C" and nr: "nr \<le> R" and nc: "nc \<le> C"
    and out: "nr \<le> r \<or> nc \<le> c"
  shows "r * unat stride + c \<notin> block_region nr nc stride"
proof
  assume "r * unat stride + c \<in> block_region nr nc stride"
  then obtain r' c' where eq: "r * unat stride + c = unat (of_nat r' * stride) + c'"
    and r': "r' < nr" and c': "c' < nc"
    unfolding block_region_def by auto
  have st: "0 < unat stride" using C c by simp
  have "r' \<le> R" using r' nr by simp
  then have "r' * unat stride \<le> R * unat stride" by (rule mult_le_mono1)
  then have rs: "r' * unat stride < 2 ^ 32" using nowrap by (rule le_less_trans)
  have "r' \<le> r' * unat stride" using st by simp
  then have "r' < 2 ^ 32" using rs by (rule le_less_trans)
  then have ur: "unat (of_nat r' :: u32) = r'" by (simp add: unat_of_nat)
  have "unat (of_nat r' :: u32) * unat stride < 2 ^ LENGTH(32)" using rs ur by simp
  then have "unat (of_nat r' * stride) = unat (of_nat r' :: u32) * unat stride"
    by (simp only: unat_mult_lem)
  then have "unat (of_nat r' * stride) = r' * unat stride"
    by (simp only: ur)
  with eq have e: "r * unat stride + c = r' * unat stride + c'" by simp
  have c1: "c < unat stride" using c C by simp
  have c2: "c' < unat stride" using c' nc C by simp
  have "(r * unat stride + c) div unat stride = r" using c1 by simp
  moreover have "(r' * unat stride + c') div unat stride = r'" using c2 by simp
  ultimately have rr: "r = r'" using e by simp
  with e have "c = c'" by simp
  with rr r' c' out show False by simp
qed

lemma fwd_frame:
  assumes "W \<noteq> 0" "H \<noteq> 0"
    and "rgb24_yuv420_std W H RGB rs s ys uvs T = Some (Inr s')"
  shows "length (Y_plane s') = length (Y_plane s) \<and> length (U_plane s') = length (U_plane s) \<and>
    length (V_plane s') = length (V_plane s) \<and>
    (\<forall>i. i \<notin> luma_region W H ys \<longrightarrow> Y_plane s' ! i = Y_plane s ! i) \<and>
    (\<forall>i. i \<notin> chroma_region W H uvs \<longrightarrow>
       U_plane s' ! i = U_plane s ! i \<and> V_plane s' ! i = V_plane s ! i)"
proof -
  have ev: "even (unat (0 :: u32))" by simp
  note F = rows_frame [OF assms(1,2) ev assms(3) [unfolded rgb24_yuv420_std_def]]
  have Y: "Y_plane s' ! i = Y_plane s ! i" if "i \<notin> luma_region W H ys" for i
  proof -
    from that have "\<forall>r c. unat (0 :: u32) \<le> r \<and> r < 2 * (unat H div 2) \<and> c < 2 * (unat W div 2)
            \<longrightarrow> i \<noteq> unat (of_nat r * ys) + c"
      unfolding luma_region_def block_region_def by auto
    with F show ?thesis by blast
  qed
  have UV: "U_plane s' ! i = U_plane s ! i \<and> V_plane s' ! i = V_plane s ! i"
    if "i \<notin> chroma_region W H uvs" for i
  proof -
    from that have "\<forall>r c. unat (0 :: u32) div 2 \<le> r \<and> r < unat H div 2 \<and> c < unat W div 2
            \<longrightarrow> i \<noteq> unat (of_nat r * uvs) + c"
      unfolding chroma_region_def block_region_def by auto
    with F show ?thesis by blast
  qed
  from F Y UV show ?thesis by simp
qed

lemma inv_frame:
  assumes "W \<noteq> 0" "H \<noteq> 0"
    and "yuv420_rgb24_std W H Y U V ys uvs RGB rs T = Some (Inr RGB')"
  shows "length RGB' = length RGB \<and> (\<forall>i. i \<notin> rgb_region W H rs \<longrightarrow> RGB' ! i = RGB ! i)"
proof -
  have ev: "even (unat (0 :: u32))" by simp
  note F = inv_rows_frame [OF assms(1,2) ev assms(3) [unfolded yuv420_rgb24_std_def]]
  have "RGB' ! i = RGB ! i" if "i \<notin> rgb_region W H rs" for i
  proof -
    from that have "\<forall>r c. unat (0 :: u32) \<le> r \<and> r < 2 * (unat H div 2) \<and> c < 6 * (unat W div 2)
            \<longrightarrow> i \<noteq> unat (of_nat r * rs) + c"
      unfolding rgb_region_def block_region_def by auto
    with F show ?thesis by blast
  qed
  with F show ?thesis by simp
qed

lemma fwd_rows_terminate:
  assumes "H \<noteq> 0"
  shows "\<exists>res. rgb24_yuv420_rows P W H RGB rs ys uvs y s = Some res"
proof (induction "unat H - unat y" arbitrary: y s rule: less_induct)
  case less
  show ?case
  proof (cases "y < H - 1")
    case False
    then show ?thesis by (subst rgb24_yuv420_rows.simps) simp
  next
    case True
    note st = loop_step [OF True \<open>H \<noteq> 0\<close>]
    have "unat H - unat (y + 2) < unat H - unat y" using st(1) unfolding st(3) by simp
    from less.hyps [OF this] True show ?thesis
      by (subst rgb24_yuv420_rows.simps) (simp split: sum.splits)
  qed
qed

lemma inv_rows_terminate:
  assumes "H \<noteq> 0"
  shows "\<exists>res. yuv420_rgb24_rows P W H Y U V ys uvs rs y RGB = Some res"
proof (induction "unat H - unat y" arbitrary: y RGB rule: less_induct)
  case less
  show ?case
  proof (cases "y < H - 1")
    case False
    then show ?thesis by (subst yuv420_rgb24_rows.simps) simp
  next
    case True
    note st = loop_step [OF True \<open>H \<noteq> 0\<close>]
    have "unat H - unat (y + 2) < unat H - unat y" using st(1) unfolding st(3) by simp
    from less.hyps [OF this] True show ?thesis
      by (subst yuv420_rgb24_rows.simps) (simp split: sum.splits)
  qed
qed

lemma fwd_rows_width1:
  assumes "H \<noteq> 0"
  shows "rgb24_yuv420_rows P 1 H RGB rs ys uvs y s = Some (Inr s)"
proof (induction "unat H - unat y" arbitrary: y rule: less_induct)
  case less
  show ?case
  proof (cases "y < H - 1")
    case False
    then show ?thesis by (subst rgb24_yuv420_rows.simps) simp
  next
    case True
    note st = loop_step [OF True \<open>H \<noteq> 0\<close>]
    have "unat H - unat (y + 2) < unat H - unat y" using st(1) unfolding st(3) by simp
    from less.hyps [OF this] True show ?thesis
      by (subst rgb24_yuv420_rows.simps) (simp add: rgb24_yuv420_row.simps)
  qed
qed

lemma inv_rows_width1:
  assumes "H \<noteq> 0"
  shows "yuv420_rgb24_rows P 1 H Y U V ys uvs rs y RGB = Some (Inr RGB)"
proof (induction "unat H - unat y" arbitrary: y rule: less_induct)
  case less
  show ?case
  proof (cases "y < H - 1")
    case False
    then show ?thesis by (subst yuv420_rgb24_rows.simps) simp
  next
    case True
    note st = loop_step [OF True \<open>H \<noteq> 0\<close>]
    have "unat H - unat (y + 2) < unat H - unat y" using st(1) unfolding st(3) by simp
    from less.hyps [OF this] True show ?thesis
      by (subst yuv420_rgb24_rows.simps) (simp add: yuv420_rgb24_row.simps)
  qed
qed

lemma fwd_rows_height1: "rgb24_yuv420_rows P W 1 RGB rs ys uvs 0 s = Some (Inr s)"
  by (subst rgb24_yuv420_rows.simps) simp

lemma inv_rows_height1: "yuv420_rgb24_rows P W 1 Y U V ys uvs rs 0 RGB = Some (Inr RGB)"
  by (subst yuv420_rgb24_rows.simps) simp

text \<open>
  Claim C7.  For an image with at least one row and one column, both conversions
  return (normally, or with a fault when a block lies outside a buffer), and on a
  normal return they have written only inside the even-aligned region: every byte of
  the Y, U and V planes (forward) or of the RGB buffer (inverse) whose offset is outside
  that region is unchanged, and the buffers keep their lengths.  In coordinates, for
  planes whose row pitch is at least their width and whose size fits 32 bits: the
  samples of a trailing odd row (\<open>r \<ge> 2 * (H div 2)\<close>) and of a trailing odd column
  (\<open>c \<ge> 2 * (W div 2)\<close>) are unchanged in the luma plane and the RGB buffer, and so are
  the chroma samples of row \<open>H div 2\<close> and column \<open>W div 2\<close>.  A 3x2 image is converted in
  its first two columns only.  When the width or the height is 1 there is no full block
  and every output plane is returned untouched.
\<close>

theorem conversions_touch_only_even_region:
  assumes "width \<noteq> 0" "height \<noteq> 0"
  shows
   "(\<exists>res. rgb24_yuv420_std width height RGB RGB_stride s Y_stride UV_stride T = Some res) \<and>
    (rgb24_yuv420_std width height RGB RGB_stride s Y_stride UV_stride T = Some (Inr s') \<longrightarrow>
       length (Y_plane s') = length (Y_plane s) \<and> length (U_plane s') = length (U_plane s) \<and>
       length (V_plane s') = length (V_plane s) \<and>
       (\<forall>i. i \<notin> luma_region width height Y_stride \<longrightarrow> Y_plane s' ! i = Y_plane s ! i) \<and>
       (\<forall>i. i \<notin> chroma_region width height UV_stride \<longrightarrow>
          U_plane s' ! i = U_plane s ! i \<and> V_plane s' ! i = V_plane s ! i) \<and>
       (\<forall>r c. unat height * unat Y_stride < 2 ^ 32 \<and> unat width \<le> unat Y_stride \<and>
          r < unat height \<and> c < unat width \<and>
          (2 * (unat height div 2) \<le> r \<or> 2 * (unat width div 2) \<le> c) \<longrightarrow>
          Y_plane s' ! (r * unat Y_stride + c) = Y_plane s ! (r * unat Y_stride + c)) \<and>
       (\<forall>r c. ((unat height + 1) div 2) * unat UV_stride < 2 ^ 32 \<and>
          (unat width + 1) div 2 \<le> unat UV_stride \<and>
          r < (unat height + 1) div 2 \<and> c < (unat width + 1) div 2 \<and>
          (unat height div 2 \<le> r \<or> unat width div 2 \<le> c) \<longrightarrow>
          U_plane s' ! (r * unat UV_stride + c) = U_plane s ! (r * unat UV_stride + c) \<and>
          V_plane s' ! (r * unat UV_stride + c) = V_plane s ! (r * unat UV_stride + c))) \<and>
    (\<exists>res. yuv420_rgb24_std width height Y U V Y_stride UV_stride RGB0 RGB_stride T = Some res) \<and>
    (yuv420_rgb24_std width height Y U V Y_stride UV_stride RGB0 RGB_stride T = Some (Inr RGB') \<longrightarrow>
       length RGB' = length RGB0 \<and>
       (\<forall>i. i \<notin> rgb_region width height RGB_stride \<longrightarrow> RGB' ! i = RGB0 ! i) \<and>
       (\<forall>r c k. unat height * unat RGB_stride < 2 ^ 32 \<and> 3 * unat width \<le> unat RGB_stride \<and>
          r < unat height \<and> c < unat width \<and> k < 3 \<and>
          (2 * (unat height div 2) \<le> r \<or> 2 * (unat width div 2) \<le> c) \<longrightarrow>
          RGB' ! (r * unat RGB_stride + (3 * c + k)) = RGB0 ! (r * unat RGB_stride + (3 * c + k)))) \<and>
    (width = 1 \<or> height = 1 \<longrightarrow>
       rgb24_yuv420_std width height RGB RGB_stride s Y_stride UV_stride T = Some (Inr s) \<and>
       yuv420_rgb24_std width height Y U V Y_stride UV_stride RGB0 RGB_stride T = Some (Inr RGB0))"
proof -
  have t1: "\<exists>res. rgb24_yuv420_std width height RGB RGB_stride s Y_stride UV_stride T = Some res"
    unfolding rgb24_yuv420_std_def by (rule fwd_rows_terminate [OF assms(2)])
  have t2: "\<exists>res. yuv420_rgb24_std width height Y U V Y_stride UV_stride RGB0 RGB_stride T = Some res"
    unfolding yuv420_rgb24_std_def by (rule inv_rows_terminate [OF assms(2)])
  have f: "length (Y_plane s') = length (Y_plane s) \<and> length (U_plane s') = length (U_plane s) \<and>
       length (V_plane s') = length (V_plane s) \<and>
       (\<forall>i. i \<notin> luma_region width height Y_stride \<longrightarrow> Y_plane s' ! i = Y_plane s ! i) \<and>
       (\<forall>i. i \<notin> chroma_region width height UV_stride \<longrightarrow>
          U_plane s' ! i = U_plane s ! i \<and> V_plane s' ! i = V_plane s ! i) \<and>
       (\<forall>r c. unat height * unat Y_stride < 2 ^ 32 \<and> unat width \<le> unat Y_stride \<and>
          r < unat height \<and> c < unat width \<and>
          (2 * (unat height div 2) \<le> r \<or> 2 * (unat width div 2) \<le> c) \<longrightarrow>
          Y_plane s' ! (r * unat Y_stride + c) = Y_plane s ! (r * unat Y_stride + c)) \<and>
       (\<forall>r c. ((unat height + 1) div 2) * unat UV_stride < 2 ^ 32 \<and>
          (unat width + 1) div 2 \<le> unat UV_stride \<and>
          r < (unat height + 1) div 2 \<and> c < (unat width + 1) div 2 \<and>
          (unat height div 2 \<le> r \<or> unat width div 2 \<le> c) \<longrightarrow>
          U_plane s' ! (r * unat UV_stride + c) = U_plane s ! (r * unat UV_stride + c) \<and>
          V_plane s' ! (r * unat UV_stride + c) = V_plane s ! (r * unat UV_stride + c))"
    if ret: "rgb24_yuv420_std width height RGB RGB_stride s Y_stride UV_stride T = Some (Inr s')"
  proof -
    note F = fwd_frame [OF assms ret]
    have Y: "Y_plane s' ! (r * unat Y_stride + c) = Y_plane s ! (r * unat Y_stride + c)"
      if h: "unat height * unat Y_stride < 2 ^ 32 \<and> unat width \<le> unat Y_stride \<and>
          r < unat height \<and> c < unat width \<and>
          (2 * (unat height div 2) \<le> r \<or> 2 * (unat width div 2) \<le> c)" for r c
    proof -
      have "r * unat Y_stride + c \<notin> block_region (2 * (unat height div 2)) (2 * (unat width div 2)) Y_stride"
        using h by (intro outside_block_region [where R = "unat height" and C = "unat width"]) simp_all
      with F show ?thesis unfolding luma_region_def by blast
    qed
    have UV: "U_plane s' ! (r * unat UV_stride + c) = U_plane s ! (r * unat UV_stride + c) \<and>
          V_plane s' ! (r * unat UV_stride + c) = V_plane s ! (r * unat UV_stride + c)"
      if h: "((unat height + 1) div 2) * unat UV_stride < 2 ^ 32 \<and>
          (unat width + 1) div 2 \<le> unat UV_stride \<and>
          r < (unat height + 1) div 2 \<and> c < (unat width + 1) div 2 \<and>
          (unat height div 2 \<le> r \<or> unat width div 2 \<le> c)" for r c
    proof -
      have "r * unat UV_stride + c \<notin> block_region (unat height div 2) (unat width div 2) UV_stride"
        using h
        by (intro outside_block_region [where R = "(unat height + 1) div 2"
              and C = "(unat width + 1) div 2"]) simp_all
      with F show ?thesis unfolding chroma_region_def by blast
    qed
    from F Y UV show ?thesis by blast
  qed
  have i: "length RGB' = length RGB0 \<and>
       (\<forall>i. i \<notin> rgb_region width height RGB_stride \<longrightarrow> RGB' ! i = RGB0 ! i) \<and>
       (\<forall>r c k. unat height * unat RGB_stride < 2 ^ 32 \<and> 3 * unat width \<le> unat RGB_stride \<and>
          r < unat height \<and> c < unat width \<and> k < 3 \<and>
          (2 * (unat height div 2) \<le> r \<or> 2 * (unat width div 2) \<le> c) \<longrightarrow>
          RGB' ! (r * unat RGB_stride + (3 * c + k)) = RGB0 ! (r * unat RGB_stride + (3 * c + k)))"
    if ret: "yuv420_rgb24_std width height Y U V Y_stride UV_stride RGB0 RGB_stride T = Some (Inr RGB')"
  proof -
    note F = inv_frame [OF assms ret]
    have "RGB' ! (r * unat RGB_stride + (3 * c + k)) = RGB0 ! (r * unat RGB_stride + (3 * c + k))"
      if h: "unat height * unat RGB_stride < 2 ^ 32 \<and> 3 * unat width \<le> unat RGB_stride \<and>
          r < unat height \<and> c < unat width \<and> k < 3 \<and>
          (2 * (unat height div 2) \<le> r \<or> 2 * (unat width div 2) \<le> c)" for r c k
    proof -
      have "r * unat RGB_stride + (3 * c + k)
          \<notin> block_region (2 * (unat height div 2)) (3 * (2 * (unat width div 2))) RGB_stride"
        using h
        by (intro outside_block_region [where R = "unat height" and C = "3 * unat width"])
          auto
      with F show ?thesis unfolding rgb_region_def by blast
    qed
    with F show ?thesis by blast
  qed
  have n: "rgb24_yuv420_std width height RGB RGB_stride s Y_stride UV_stride T = Some (Inr s) \<and>
       yuv420_rgb24_std width height Y U V Y_stride UV_stride RGB0 RGB_stride T = Some (Inr RGB0)"
    if "width = 1 \<or> height = 1"
    using that assms(2)
    by (auto simp add: rgb24_yuv420_std_def yuv420_rgb24_std_def fwd_rows_width1 inv_rows_width1
        fwd_rows_height1 inv_rows_height1)
  from t1 t2 f i n show ?thesis by blast
qed

theorem conversions_touch_only_even_region_witness:
  "rgb24_yuv420_std 3 2 (replicate 18 255) 9
      \<lparr>Y_plane = [1, 2, 3, 4, 5, 6], U_plane = [7, 8], V_plane = [9, 10]\<rparr> 3 2 BT601
     = Some (Inr \<lparr>Y_plane = [235, 235, 3, 235, 235, 6], U_plane = [128, 8], V_plane = [128, 10]\<rparr>) \<and>
   yuv420_rgb24_std 3 2 [0, 128, 255, 0, 128, 255] [0, 0] [255, 255] 3 2 (replicate 18 7) 9 BT601
     = Some (Inr [183, 0, 0, 255, 77, 0, 7, 7, 7, 183, 0, 0, 255, 77, 0, 7, 7, 7]) \<and>
   rgb24_yuv420_std 1 1 [255, 255, 255] 3 \<lparr>Y_plane = [1], U_plane = [7], V_plane = [9]\<rparr> 1 1 BT601
     = Some (Inr \<lparr>Y_plane = [1], U_plane = [7], V_plane = [9]\<rparr>) \<and>
   rgb24_yuv420_std 1 4 (replicate 12 255) 3
      \<lparr>Y_plane = [1, 2, 3, 4], U_plane = [7, 8], V_plane = [9, 10]\<rparr> 1 1 BT601
     = Some (Inr \<lparr>Y_plane = [1, 2, 3, 4], U_plane = [7, 8], V_plane = [9, 10]\<rparr>) \<and>
   yuv420_rgb24_std 1 4 [1, 2, 3, 4] [7, 8] [9, 10] 1 1 (replicate 12 7) 3 BT601
     = Some (Inr (replicate 12 7))"
proof -
  have w: "(3 :: u32) \<noteq> 0" "(2 :: u32) \<noteq> 0" "(1 :: u32) \<noteq> 0" "(4 :: u32) \<noteq> 0"
    by simp_all
  have fwd: "rgb24_yuv420_std 3 2 (replicate 18 255) 9
      \<lparr>Y_plane = [1, 2, 3, 4, 5, 6], U_plane = [7, 8], V_plane = [9, 10]\<rparr> 3 2 BT601
     = Some (Inr \<lparr>Y_plane = [235, 235, 3, 235, 235, 6], U_plane = [128, 8], V_plane = [128, 10]\<rparr>)"
    by code_simp
  have inv: "yuv420_rgb24_std 3 2 [0, 128, 255, 0, 128, 255] [0, 0] [255, 255] 3 2
      (replicate 18 7) 9 BT601
     = Some (Inr [183, 0, 0, 255, 77, 0, 7, 7, 7, 183, 0, 0, 255, 77, 0, 7, 7, 7])"
    by code_simp
  note T32 = conversions_touch_only_even_region [OF w(1,2), of "replicate 18 255" 9
      "\<lparr>Y_plane = [1, 2, 3, 4, 5, 6], U_plane = [7, 8], V_plane = [9, 10]\<rparr>" 3 2 BT601
      "\<lparr>Y_plane = [235, 235, 3, 235, 235, 6], U_plane = [128, 8], V_plane = [128, 10]\<rparr>"
      "[0, 128, 255, 0, 128, 255]" "[0, 0]" "[255, 255]" "replicate 18 7"
      "[183, 0, 0, 255, 77, 0, 7, 7, 7, 183, 0, 0, 255, 77, 0, 7, 7, 7]"]
  note T11 = conversions_touch_only_even_region [OF w(3,3), of "[255, 255, 255]" 3
      "\<lparr>Y_plane = [1], U_plane = [7], V_plane = [9]\<rparr>" 1 1 BT601]
  note T14 = conversions_touch_only_even_region [OF w(3,4), of "replicate 12 255" 3
      "\<lparr>Y_plane = [1, 2, 3, 4], U_plane = [7, 8], V_plane = [9, 10]\<rparr>" 1 1 BT601 _
      "[1, 2, 3, 4]" "[7, 8]" "[9, 10]" "replicate 12 7"]
  from T11 have n11: "rgb24_yuv420_std 1 1 [255, 255, 255] 3
      \<lparr>Y_plane = [1], U_plane = [7], V_plane = [9]\<rparr> 1 1 BT601
     = Some (Inr \<lparr>Y_plane = [1], U_plane = [7], V_plane = [9]\<rparr>)"
    by blast
  from T14 have n14: "rgb24_yuv420_std 1 4 (replicate 12 255) 3
      \<lparr>Y_plane = [1, 2, 3, 4], U_plane = [7, 8], V_plane = [9, 10]\<rparr> 1 1 BT601
     = Some (Inr \<lparr>Y_plane = [1, 2, 3, 4], U_plane = [7, 8], V_plane = [9, 10]\<rparr>)"
    "yuv420_rgb24_std 1 4 [1, 2, 3, 4] [7, 8] [9, 10] 1 1 (replicate 12 7) 3 BT601
     = Some (Inr (replicate 12 7))"
    by blast+
  from T32 fwd have "\<forall>r c. unat (2 :: u32) * unat (3 :: u32) < 2 ^ 32 \<and>
      unat (3 :: u32) \<le> unat (3 :: u32) \<and> r < unat (2 :: u32) \<and> c < unat (3 :: u32) \<and>
      (2 * (unat (2 :: u32) div 2) \<le> r \<or> 2 * (unat (3 :: u32) div 2) \<le> c) \<longrightarrow>
      Y_plane \<lparr>Y_plane = [235, 235, 3, 235, 235, 6], U_plane = [128, 8], V_plane = [128, 10]\<rparr>
        ! (r * unat (3 :: u32) + c)
      = Y_plane \<lparr>Y_plane = [1, 2, 3, 4, 5, 6], U_plane = [7, 8], V_plane = [9, 10]\<rparr>
        ! (r * unat (3 :: u32) + c)"
    by blast
  from this [rule_format, of 1 2] have "[235, 235, 3, 235, 235, 6 :: u8] ! 5 = [1, 2, 3, 4, 5, 6] ! 5"
    by simp
  with fwd inv n11 n14 show ?thesis by simp
qed

section \<open>The conversions, block by block\<close>

lemma row_box_filter:
  assumes "rgb24_yuv420_row (RGB2YUV T) W RGB x p1 p2 y1 y2 up vp s = Inr s'" and "W \<noteq> 0"
  shows "\<forall>d < (unat W - unat x) div 2.
    uint (U_plane s' ! (up + d)) =
      (pixel_U_ish (RGB2YUV T) RGB (p1 + 6 * d) + pixel_U_ish (RGB2YUV T) RGB (p1 + 6 * d + 3) +
       pixel_U_ish (RGB2YUV T) RGB (p2 + 6 * d) + pixel_U_ish (RGB2YUV T) RGB (p2 + 6 * d + 3)) div 4 \<and>
    uint (V_plane s' ! (vp + d)) =
      (pixel_V_ish (RGB2YUV T) RGB (p1 + 6 * d) + pixel_V_ish (RGB2YUV T) RGB (p1 + 6 * d + 3) +
       pixel_V_ish (RGB2YUV T) RGB (p2 + 6 * d) + pixel_V_ish (RGB2YUV T) RGB (p2 + 6 * d + 3)) div 4"
  using assms
proof (induction "RGB2YUV T" W RGB x p1 p2 y1 y2 up vp s rule: rgb24_yuv420_row.induct)
  case (1 W RGB x p1 p2 y1 y2 up vp s)
  show ?case
  proof (cases "x < W - 1")
    case False
    then have "unat W - unat x \<le> 1"
      using \<open>W \<noteq> 0\<close> by (simp add: word_less_nat_alt unat_minus_one)
    then show ?thesis by simp
  next
    case True
    with "1.prems" obtain s1 where
      blk: "rgb24_yuv420_block (RGB2YUV T) RGB p1 p2 y1 y2 up vp s = Inr s1" and
      rest: "rgb24_yuv420_row (RGB2YUV T) W RGB (x + 2) (p1 + 6) (p2 + 6) (y1 + 2) (y2 + 2)
        (up + 1) (vp + 1) s1 = Inr s'"
      by (subst (asm) rgb24_yuv420_row.simps) (auto split: sum.splits)
    note IH = "1.hyps" [OF True blk rest \<open>W \<noteq> 0\<close>]
    note st = loop_step [OF True \<open>W \<noteq> 0\<close>]
    note F = row_frame [OF rest \<open>W \<noteq> 0\<close>]
    note B = block_box_filter [OF blk]
    define N where "N = (unat W - unat x) div 2"
    have N: "(unat W - unat (x + 2)) div 2 = N - 1" "1 \<le> N"
      using st(1) unfolding st(3) N_def by simp_all
    show ?thesis
      unfolding N_def [symmetric]
    proof (intro allI impI)
      fix d assume d: "d < N"
      show "uint (U_plane s' ! (up + d)) =
        (pixel_U_ish (RGB2YUV T) RGB (p1 + 6 * d) + pixel_U_ish (RGB2YUV T) RGB (p1 + 6 * d + 3) +
         pixel_U_ish (RGB2YUV T) RGB (p2 + 6 * d) + pixel_U_ish (RGB2YUV T) RGB (p2 + 6 * d + 3)) div 4 \<and>
        uint (V_plane s' ! (vp + d)) =
        (pixel_V_ish (RGB2YUV T) RGB (p1 + 6 * d) + pixel_V_ish (RGB2YUV T) RGB (p1 + 6 * d + 3) +
         pixel_V_ish (RGB2YUV T) RGB (p2 + 6 * d) + pixel_V_ish (RGB2YUV T) RGB (p2 + 6 * d + 3)) div 4"
      proof (cases d)
        case 0
        have "U_plane s' ! up = U_plane s1 ! up" "V_plane s' ! vp = V_plane s1 ! vp"
          using F by simp_all
        with B 0 show ?thesis by simp
      next
        case (Suc e)
        then have "e < N - 1" using d by simp
        with IH [unfolded N(1)] have
          "uint (U_plane s' ! (up + 1 + e)) =
             (pixel_U_ish (RGB2YUV T) RGB (p1 + 6 + 6 * e) +
              pixel_U_ish (RGB2YUV T) RGB (p1 + 6 + 6 * e + 3) +
              pixel_U_ish (RGB2YUV T) RGB (p2 + 6 + 6 * e) +
              pixel_U_ish (RGB2YUV T) RGB (p2 + 6 + 6 * e + 3)) div 4 \<and>
           uint (V_plane s' ! (vp + 1 + e)) =
             (pixel_V_ish (RGB2YUV T) RGB (p1 + 6 + 6 * e) +
              pixel_V_ish (RGB2YUV T) RGB (p1 + 6 + 6 * e + 3) +
              pixel_V_ish (RGB2YUV T) RGB (p2 + 6 + 6 * e) +
              pixel_V_ish (RGB2YUV T) RGB (p2 + 6 + 6 * e + 3)) div 4"
          by blast
        then show ?thesis
          unfolding Suc by (simp add: add.assoc)
      qed
    qed
  qed
qed


lemma row_offset:
  fixes stride :: u32
  assumes "r \<le> R" "R < 2 ^ 32" "R * unat stride < 2 ^ 32"
  shows "unat (of_nat r * stride) = r * unat stride"
proof -
  have "r < 2 ^ 32" using assms(1,2) by simp
  then have ur: "unat (of_nat r :: u32) = r" by (simp add: unat_of_nat)
  have "r * unat stride \<le> R * unat stride" using assms(1) by (rule mult_le_mono1)
  then have "r * unat stride < 2 ^ 32" using assms(3) by (rule le_less_trans)
  then have "unat (of_nat r :: u32) * unat stride < 2 ^ LENGTH(32)" using ur by simp
  then have "unat (of_nat r * stride) = unat (of_nat r :: u32) * unat stride"
    by (simp only: unat_mult_lem)
  then show ?thesis by (simp only: ur)
qed

lemma rows_box_filter:
  assumes "W \<noteq> 0" "H \<noteq> 0"
    and nowrap: "(unat H div 2) * unat uvs < 2 ^ 32" and pitch: "unat W div 2 \<le> unat uvs"
  shows "even (unat y) \<Longrightarrow>
    rgb24_yuv420_rows (RGB2YUV T) W H RGB rs ys uvs y s = Some (Inr S) \<Longrightarrow>
    \<forall>r c. unat y div 2 \<le> r \<and> r < unat H div 2 \<and> c < unat W div 2 \<longrightarrow>
      uint (U_plane S ! (r * unat uvs + c)) =
        (pixel_U_ish (RGB2YUV T) RGB (unat (of_nat (2 * r) * rs) + 6 * c) +
         pixel_U_ish (RGB2YUV T) RGB (unat (of_nat (2 * r) * rs) + 6 * c + 3) +
         pixel_U_ish (RGB2YUV T) RGB (unat (of_nat (2 * r + 1) * rs) + 6 * c) +
         pixel_U_ish (RGB2YUV T) RGB (unat (of_nat (2 * r + 1) * rs) + 6 * c + 3)) div 4 \<and>
      uint (V_plane S ! (r * unat uvs + c)) =
        (pixel_V_ish (RGB2YUV T) RGB (unat (of_nat (2 * r) * rs) + 6 * c) +
         pixel_V_ish (RGB2YUV T) RGB (unat (of_nat (2 * r) * rs) + 6 * c + 3) +
         pixel_V_ish (RGB2YUV T) RGB (unat (of_nat (2 * r + 1) * rs) + 6 * c) +
         pixel_V_ish (RGB2YUV T) RGB (unat (of_nat (2 * r + 1) * rs) + 6 * c + 3)) div 4"
proof (induction "unat H - unat y" arbitrary: y s rule: less_induct)
  case less
  have Hb: "unat H div 2 < 2 ^ 32"
    using unsigned_less [of H, where ?'a = nat] by simp
  note off = row_offset [OF _ Hb nowrap]
  show ?case
  proof (cases "y < H - 1")
    case False
    then have "unat H - unat y \<le> 1"
      using \<open>H \<noteq> 0\<close> by (simp add: word_less_nat_alt unat_minus_one)
    then have "unat H div 2 \<le> unat y div 2"
      using less.prems(1) by presburger
    then show ?thesis by simp
  next
    case True
    note st = loop_step [OF True \<open>H \<noteq> 0\<close>]
    from True less.prems(2) obtain s1 where
      row: "rgb24_yuv420_row (RGB2YUV T) W RGB 0 (unat (y * rs)) (unat ((y + 1) * rs))
              (unat (y * ys)) (unat ((y + 1) * ys))
              (unat ((y div 2) * uvs)) (unat ((y div 2) * uvs)) s = Inr s1" and
      rest: "rgb24_yuv420_rows (RGB2YUV T) W H RGB rs ys uvs (y + 2) s1 = Some (Inr S)"
      by (subst (asm) rgb24_yuv420_rows.simps) (auto split: sum.splits)
    have ev: "even (unat (y + 2))" using less.prems(1) unfolding st(3) by simp
    have "unat H - unat (y + 2) < unat H - unat y" using st(1) unfolding st(3) by simp
    note IH = less.hyps [OF this ev rest]
    note F = rows_frame [OF \<open>W \<noteq> 0\<close> \<open>H \<noteq> 0\<close> ev rest]
    note R = row_box_filter [OF row \<open>W \<noteq> 0\<close>]
    define q where "q = unat y div 2"
    have q: "unat y = 2 * q" "q < unat H div 2" "unat (y + 2) div 2 = q + 1"
      using less.prems(1) st(1) unfolding st(3) q_def by presburger+
    have y0: "y = of_nat (2 * q)" unfolding q(1) [symmetric] by simp
    have y1: "y + 1 = of_nat (2 * q + 1)" unfolding q(1) [symmetric] by simp
    have yd: "unat (y div 2) = q" by (simp add: unat_div q_def)
    have y2: "y div 2 = of_nat q"
      by (subst yd [symmetric]) simp
    have uo: "unat ((y div 2) * uvs) = q * unat uvs"
      unfolding y2 using q(2) by (intro off) simp
    show ?thesis
    proof (intro allI impI)
      fix r c assume h: "unat y div 2 \<le> r \<and> r < unat H div 2 \<and> c < unat W div 2"
      show "uint (U_plane S ! (r * unat uvs + c)) =
        (pixel_U_ish (RGB2YUV T) RGB (unat (of_nat (2 * r) * rs) + 6 * c) +
         pixel_U_ish (RGB2YUV T) RGB (unat (of_nat (2 * r) * rs) + 6 * c + 3) +
         pixel_U_ish (RGB2YUV T) RGB (unat (of_nat (2 * r + 1) * rs) + 6 * c) +
         pixel_U_ish (RGB2YUV T) RGB (unat (of_nat (2 * r + 1) * rs) + 6 * c + 3)) div 4 \<and>
      uint (V_plane S ! (r * unat uvs + c)) =
        (pixel_V_ish (RGB2YUV T) RGB (unat (of_nat (2 * r) * rs) + 6 * c) +
         pixel_V_ish (RGB2YUV T) RGB (unat (of_nat (2 * r) * rs) + 6 * c + 3) +
         pixel_V_ish (RGB2YUV T) RGB (unat (of_nat (2 * r + 1) * rs) + 6 * c) +
         pixel_V_ish (RGB2YUV T) RGB (unat (of_nat (2 * r + 1) * rs) + 6 * c + 3)) div 4"
      proof (cases "r = q")
        case False
        then have "unat (y + 2) div 2 \<le> r \<and> r < unat H div 2 \<and> c < unat W div 2"
          using h unfolding q(3) q_def by simp
        with IH show ?thesis by blast
      next
        case True
        have c: "c < (unat W - unat (0 :: u32)) div 2" using h by simp
        have "\<forall>r' c'. unat (y + 2) div 2 \<le> r' \<and> r' < unat H div 2 \<and> c' < unat W div 2
            \<longrightarrow> q * unat uvs + c \<noteq> unat (of_nat r' * uvs) + c'"
        proof (intro allI impI)
          fix r' c' assume h': "unat (y + 2) div 2 \<le> r' \<and> r' < unat H div 2 \<and> c' < unat W div 2"
          then have o': "unat (of_nat r' * uvs) = r' * unat uvs"
            by (intro off) simp
          have "q + 1 \<le> r'" using h' unfolding q(3) by simp
          then have "(q + 1) * unat uvs \<le> r' * unat uvs" by (rule mult_le_mono1)
          moreover have "c < unat uvs" using h pitch by simp
          ultimately have "q * unat uvs + c < r' * unat uvs" by simp
          then show "q * unat uvs + c \<noteq> unat (of_nat r' * uvs) + c'"
            unfolding o' by simp
        qed
        with F have "U_plane S ! (q * unat uvs + c) = U_plane s1 ! (q * unat uvs + c)"
          "V_plane S ! (q * unat uvs + c) = V_plane s1 ! (q * unat uvs + c)"
          by blast+
        with R [rule_format, OF c] show ?thesis
          unfolding True uo y0 [symmetric] y1 [symmetric] by simp
      qed
    qed
  qed
qed

text \<open>
  Claim C3.  For each of the three standards, the single U sample a block writes is the
  sum of the four per-pixel values \<open>((B - Y') * cb_factor >> 8) + 128\<close> shifted right by 2,
  that is divided by 4 and truncated, and the V sample is the same with
  \<open>((R - Y') * cr_factor >> 8) + 128\<close>: the four pixels at \<^verbatim>\<open>rgb_ptr1\<close>, \<^verbatim>\<open>rgb_ptr1 + 3\<close>,
  \<^verbatim>\<open>rgb_ptr2\<close> and \<^verbatim>\<open>rgb_ptr2 + 3\<close> contribute equally.  The right-hand sides are
  unbounded integers, so neither the 16-bit accumulators nor the byte stores wrap.
  The conversion does this for every 2x2 block of the image: when
  \<^verbatim>\<open>rgb24_yuv420_std\<close> returns normally, and the rows of the chroma planes do not overlap
  (the pitch \<^verbatim>\<open>UV_stride\<close> is at least \<open>width div 2\<close> and the plane size fits 32 bits), the
  sample in row \<open>r\<close> and column \<open>c\<close> of the U plane and of the V plane, for
  \<open>r < height div 2\<close> and \<open>c < width div 2\<close>, is this truncated mean of the pixels in rows
  \<open>2 * r\<close>, \<open>2 * r + 1\<close> and columns \<open>2 * c\<close>, \<open>2 * c + 1\<close> of the image, read at the offsets
  \<^verbatim>\<open>(2*r)*RGB_stride + 6*c\<close> and \<^verbatim>\<open>(2*r+1)*RGB_stride + 6*c\<close> the code computes.
\<close>

theorem chroma_box_filter:
  "(rgb24_yuv420_block (RGB2YUV T) RGB p1 p2 y1 y2 up vp s = Inr s' \<longrightarrow>
      uint (U_plane s' ! up) =
        (pixel_U_ish (RGB2YUV T) RGB p1 + pixel_U_ish (RGB2YUV T) RGB (p1 + 3) +
         pixel_U_ish (RGB2YUV T) RGB p2 + pixel_U_ish (RGB2YUV T) RGB (p2 + 3)) div 4 \<and>
      uint (V_plane s' ! vp) =
        (pixel_V_ish (RGB2YUV T) RGB p1 + pixel_V_ish (RGB2YUV T) RGB (p1 + 3) +
         pixel_V_ish (RGB2YUV T) RGB p2 + pixel_V_ish (RGB2YUV T) RGB (p2 + 3)) div 4) \<and>
   (rgb24_yuv420_std width height RGB RGB_stride s Y_stride UV_stride T = Some (Inr S) \<and>
    (unat height div 2) * unat UV_stride < 2 ^ 32 \<and> unat width div 2 \<le> unat UV_stride \<and>
    r < unat height div 2 \<and> c < unat width div 2 \<longrightarrow>
      uint (U_plane S ! (r * unat UV_stride + c)) =
        (pixel_U_ish (RGB2YUV T) RGB (unat (of_nat (2 * r) * RGB_stride) + 6 * c) +
         pixel_U_ish (RGB2YUV T) RGB (unat (of_nat (2 * r) * RGB_stride) + 6 * c + 3) +
         pixel_U_ish (RGB2YUV T) RGB (unat (of_nat (2 * r + 1) * RGB_stride) + 6 * c) +
         pixel_U_ish (RGB2YUV T) RGB (unat (of_nat (2 * r + 1) * RGB_stride) + 6 * c + 3)) div 4 \<and>
      uint (V_plane S ! (r * unat UV_stride + c)) =
        (pixel_V_ish (RGB2YUV T) RGB (unat (of_nat (2 * r) * RGB_stride) + 6 * c) +
         pixel_V_ish (RGB2YUV T) RGB (unat (of_nat (2 * r) * RGB_stride) + 6 * c + 3) +
         pixel_V_ish (RGB2YUV T) RGB (unat (of_nat (2 * r + 1) * RGB_stride) + 6 * c) +
         pixel_V_ish (RGB2YUV T) RGB (unat (of_nat (2 * r + 1) * RGB_stride) + 6 * c + 3)) div 4)"
proof (intro conjI impI)
  assume "rgb24_yuv420_block (RGB2YUV T) RGB p1 p2 y1 y2 up vp s = Inr s'"
  then show "uint (U_plane s' ! up) =
        (pixel_U_ish (RGB2YUV T) RGB p1 + pixel_U_ish (RGB2YUV T) RGB (p1 + 3) +
         pixel_U_ish (RGB2YUV T) RGB p2 + pixel_U_ish (RGB2YUV T) RGB (p2 + 3)) div 4"
    and "uint (V_plane s' ! vp) =
        (pixel_V_ish (RGB2YUV T) RGB p1 + pixel_V_ish (RGB2YUV T) RGB (p1 + 3) +
         pixel_V_ish (RGB2YUV T) RGB p2 + pixel_V_ish (RGB2YUV T) RGB (p2 + 3)) div 4"
    by (rule block_box_filter)+
next
  assume h: "rgb24_yuv420_std width height RGB RGB_stride s Y_stride UV_stride T = Some (Inr S) \<and>
    (unat height div 2) * unat UV_stride < 2 ^ 32 \<and> unat width div 2 \<le> unat UV_stride \<and>
    r < unat height div 2 \<and> c < unat width div 2"
  then have W: "width \<noteq> 0" and H: "height \<noteq> 0"
    by auto
  have ev: "even (unat (0 :: u32))" by simp
  from h have ret: "rgb24_yuv420_rows (RGB2YUV T) width height RGB RGB_stride Y_stride UV_stride 0 s
      = Some (Inr S)"
    and nowrap: "(unat height div 2) * unat UV_stride < 2 ^ 32"
    and pitch: "unat width div 2 \<le> unat UV_stride"
    and rc: "unat (0 :: u32) div 2 \<le> r \<and> r < unat height div 2 \<and> c < unat width div 2"
    by (simp_all add: rgb24_yuv420_std_def)
  note R = rows_box_filter [OF W H nowrap pitch ev ret, rule_format, OF rc]
  from R show "uint (U_plane S ! (r * unat UV_stride + c)) =
        (pixel_U_ish (RGB2YUV T) RGB (unat (of_nat (2 * r) * RGB_stride) + 6 * c) +
         pixel_U_ish (RGB2YUV T) RGB (unat (of_nat (2 * r) * RGB_stride) + 6 * c + 3) +
         pixel_U_ish (RGB2YUV T) RGB (unat (of_nat (2 * r + 1) * RGB_stride) + 6 * c) +
         pixel_U_ish (RGB2YUV T) RGB (unat (of_nat (2 * r + 1) * RGB_stride) + 6 * c + 3)) div 4"
    by (rule conjunct1)
  from R show "uint (V_plane S ! (r * unat UV_stride + c)) =
        (pixel_V_ish (RGB2YUV T) RGB (unat (of_nat (2 * r) * RGB_stride) + 6 * c) +
         pixel_V_ish (RGB2YUV T) RGB (unat (of_nat (2 * r) * RGB_stride) + 6 * c + 3) +
         pixel_V_ish (RGB2YUV T) RGB (unat (of_nat (2 * r + 1) * RGB_stride) + 6 * c) +
         pixel_V_ish (RGB2YUV T) RGB (unat (of_nat (2 * r + 1) * RGB_stride) + 6 * c + 3)) div 4"
    by (rule conjunct2)
qed

text \<open>A block of BT601 with four different pixels: the U values 90, 54, 240 and 208 give
  \<open>592 div 4 = 148\<close>; the V values 239, 34, 110 and 111 give \<open>494 div 4 = 123\<close>, where
  rounding would give 124 and the first pixel alone 239.  In a 4x4 image the last block,
  of the pixels at the offsets 30, 33, 42 and 45, gives the chroma samples at offset 3:
  \<open>495 div 4 = 123\<close> and \<open>524 div 4 = 131\<close>.\<close>

theorem chroma_box_filter_witness:
  "rgb24_yuv420_block (RGB2YUV BT601) [255, 0, 0, 0, 255, 0, 0, 0, 255, 10, 20, 200] 0 6 0 2 0 0
      \<lparr>Y_plane = [0, 0, 0, 0], U_plane = [0], V_plane = [0]\<rparr>
     = Inr \<lparr>Y_plane = [81, 144, 40, 47], U_plane = [148], V_plane = [123]\<rparr> \<and>
   uint (148 :: u8) = (90 + 54 + 240 + 208) div 4 \<and> uint (123 :: u8) = (239 + 34 + 110 + 111) div 4 \<and>
   pixel_V_ish (RGB2YUV BT601) [255, 0, 0, 0, 255, 0, 0, 0, 255, 10, 20, 200] 0 = 239 \<and>
   pixel_V_ish (RGB2YUV BT601) [255, 0, 0, 0, 255, 0, 0, 0, 255, 10, 20, 200] 3 = 34 \<and>
   pixel_V_ish (RGB2YUV BT601) [255, 0, 0, 0, 255, 0, 0, 0, 255, 10, 20, 200] 6 = 110 \<and>
   pixel_V_ish (RGB2YUV BT601) [255, 0, 0, 0, 255, 0, 0, 0, 255, 10, 20, 200] 9 = 111 \<and>
   rgb24_yuv420_std 4 4
      [255, 0, 0, 0, 255, 0, 0, 0, 255, 10, 20, 200,
       0, 0, 0, 255, 255, 255, 90, 90, 10, 200, 30, 77,
       12, 240, 99, 1, 2, 3, 250, 128, 4, 60, 70, 80,
       128, 128, 128, 33, 150, 222, 9, 199, 31, 100, 0, 255] 12
      \<lparr>Y_plane = replicate 16 0, U_plane = replicate 4 0, V_plane = replicate 4 0\<rparr> 4 2 BT601
     = Some (Inr \<lparr>Y_plane = [81, 144, 40, 47, 16, 235, 84, 89, 149, 16, 144, 74, 126, 120, 120, 65],
                   U_plane = [100, 166, 133, 123], V_plane = [132, 138, 91, 131]\<rparr>) \<and>
   uint (123 :: u8) = (55 + 133 + 82 + 225) div 4 \<and> uint (131 :: u8) = (190 + 123 + 57 + 154) div 4 \<and>
   map (pixel_U_ish (RGB2YUV BT601)
      [255, 0, 0, 0, 255, 0, 0, 0, 255, 10, 20, 200,
       0, 0, 0, 255, 255, 255, 90, 90, 10, 200, 30, 77,
       12, 240, 99, 1, 2, 3, 250, 128, 4, 60, 70, 80,
       128, 128, 128, 33, 150, 222, 9, 199, 31, 100, 0, 255]) [30, 33, 42, 45] = [55, 133, 82, 225] \<and>
   map (pixel_V_ish (RGB2YUV BT601)
      [255, 0, 0, 0, 255, 0, 0, 0, 255, 10, 20, 200,
       0, 0, 0, 255, 255, 255, 90, 90, 10, 200, 30, 77,
       12, 240, 99, 1, 2, 3, 250, 128, 4, 60, 70, 80,
       128, 128, 128, 33, 150, 222, 9, 199, 31, 100, 0, 255]) [30, 33, 42, 45] = [190, 123, 57, 154]"
proof -
  let ?img = "[255, 0, 0, 0, 255, 0, 0, 0, 255, 10, 20, 200,
       0, 0, 0, 255, 255, 255, 90, 90, 10, 200, 30, 77,
       12, 240, 99, 1, 2, 3, 250, 128, 4, 60, 70, 80,
       128, 128, 128, 33, 150, 222, 9, 199, 31, 100, 0, 255] :: u8 list"
  let ?S = "\<lparr>Y_plane = [81, 144, 40, 47, 16, 235, 84, 89, 149, 16, 144, 74, 126, 120, 120, 65],
                   U_plane = [100, 166, 133, 123], V_plane = [132, 138, 91, 131]\<rparr>"
  have blk: "rgb24_yuv420_block (RGB2YUV BT601) [255, 0, 0, 0, 255, 0, 0, 0, 255, 10, 20, 200]
      0 6 0 2 0 0 \<lparr>Y_plane = [0, 0, 0, 0], U_plane = [0], V_plane = [0]\<rparr>
     = Inr \<lparr>Y_plane = [81, 144, 40, 47], U_plane = [148], V_plane = [123]\<rparr>"
    by code_simp
  have px: "pixel_V_ish (RGB2YUV BT601) [255, 0, 0, 0, 255, 0, 0, 0, 255, 10, 20, 200] 0 = 239"
    "pixel_V_ish (RGB2YUV BT601) [255, 0, 0, 0, 255, 0, 0, 0, 255, 10, 20, 200] 3 = 34"
    "pixel_V_ish (RGB2YUV BT601) [255, 0, 0, 0, 255, 0, 0, 0, 255, 10, 20, 200] 6 = 110"
    "pixel_V_ish (RGB2YUV BT601) [255, 0, 0, 0, 255, 0, 0, 0, 255, 10, 20, 200] 9 = 111"
    by code_simp+
  have std: "rgb24_yuv420_std 4 4 ?img 12
      \<lparr>Y_plane = replicate 16 0, U_plane = replicate 4 0, V_plane = replicate 4 0\<rparr> 4 2 BT601
     = Some (Inr ?S)"
    by code_simp
  have pu: "map (pixel_U_ish (RGB2YUV BT601) ?img) [30, 33, 42, 45] = [55, 133, 82, 225]"
    by code_simp
  have pv: "map (pixel_V_ish (RGB2YUV BT601) ?img) [30, 33, 42, 45] = [190, 123, 57, 154]"
    by code_simp
  have off: "unat (of_nat (2 * 1) * (12 :: u32)) + 6 * 1 = (30 :: nat)"
    "unat (of_nat (2 * 1 + 1) * (12 :: u32)) + 6 * 1 = (42 :: nat)"
    by simp_all
  have hyp: "(unat (4 :: u32) div 2) * unat (2 :: u32) < 2 ^ 32 \<and> unat (4 :: u32) div 2 \<le> unat (2 :: u32) \<and>
    (1 :: nat) < unat (4 :: u32) div 2 \<and> (1 :: nat) < unat (4 :: u32) div 2"
    by simp
  note conv = chroma_box_filter [where T = BT601 and width = 4 and height = 4 and RGB = ?img
      and RGB_stride = 12 and Y_stride = 4 and UV_stride = 2 and S = ?S and r = 1 and c = 1
      and s = "\<lparr>Y_plane = replicate 16 0, U_plane = replicate 4 0, V_plane = replicate 4 0\<rparr>",
      THEN conjunct2, rule_format, OF conjI [OF std hyp]]
  show ?thesis
    using chroma_box_filter [where T = BT601, THEN conjunct1, rule_format, OF blk] blk px std pu pv
      conv
    by simp
qed

lemma inv_row_pixels:
  assumes "yuv420_rgb24_row P W Y U V x y1 y2 up vp p1 p2 RGB = Inr RGB'" and "W \<noteq> 0"
    and "p1 + 6 * ((unat W - unat x) div 2) \<le> p2"
  shows "\<forall>c < 2 * ((unat W - unat x) div 2). \<forall>k < 3.
    RGB' ! (p1 + 3 * c + k) =
      spec_pixel P (Y ! (y1 + c)) (U ! (up + c div 2)) (V ! (vp + c div 2)) ! k \<and>
    RGB' ! (p2 + 3 * c + k) =
      spec_pixel P (Y ! (y2 + c)) (U ! (up + c div 2)) (V ! (vp + c div 2)) ! k"
  using assms
proof (induction P W Y U V x y1 y2 up vp p1 p2 RGB rule: yuv420_rgb24_row.induct)
  case (1 P W Y U V x y1 y2 up vp p1 p2 RGB)
  show ?case
  proof (cases "x < W - 1")
    case False
    then have "unat W - unat x \<le> 1"
      using \<open>W \<noteq> 0\<close> by (simp add: word_less_nat_alt unat_minus_one)
    then show ?thesis by simp
  next
    case True
    with "1.prems" obtain RGB1 where
      blk: "yuv420_rgb24_block P Y U V y1 y2 up vp p1 p2 RGB = Inr RGB1" and
      rest: "yuv420_rgb24_row P W Y U V (x + 2) (y1 + 2) (y2 + 2) (up + 1) (vp + 1)
               (p1 + 6) (p2 + 6) RGB1 = Inr RGB'"
      by (subst (asm) yuv420_rgb24_row.simps) (auto split: sum.splits)
    note st = loop_step [OF True \<open>W \<noteq> 0\<close>]
    define N where "N = (unat W - unat x) div 2"
    have N: "(unat W - unat (x + 2)) div 2 = N - 1" "1 \<le> N"
      using st(1) unfolding st(3) N_def by simp_all
    have sep: "p1 + 6 * N \<le> p2"
      using "1.prems"(3) unfolding N_def .
    have sep': "p1 + 6 + 6 * ((unat W - unat (x + 2)) div 2) \<le> p2 + 6"
      unfolding N(1) using sep N(2) by simp
    note IH = "1.IH" [OF True blk rest \<open>W \<noteq> 0\<close> sep', unfolded N(1)]
    note F = inv_row_frame [OF rest \<open>W \<noteq> 0\<close>, unfolded N(1)]
    have sep6: "p1 + 6 \<le> p2" using sep N(2) by simp
    note B = inv_block_pixels [OF blk sep6]
    have keep1: "RGB' ! (p1 + e) = RGB1 ! (p1 + e)" if "e < 6" for e
    proof -
      have "\<forall>d < 6 * (N - 1). p1 + e \<noteq> p1 + 6 + d \<and> p1 + e \<noteq> p2 + 6 + d"
        using that sep6 by simp
      with F show ?thesis by blast
    qed
    have keep2: "RGB' ! (p2 + e) = RGB1 ! (p2 + e)" if "e < 6" for e
    proof -
      have "\<forall>d < 6 * (N - 1). p2 + e \<noteq> p1 + 6 + d \<and> p2 + e \<noteq> p2 + 6 + d"
      proof (intro allI impI)
        fix d assume "d < 6 * (N - 1)"
        then have "p1 + 6 + d < p1 + 6 * N" using N(2) by simp
        then have "p1 + 6 + d < p2" using sep by simp
        then show "p2 + e \<noteq> p1 + 6 + d \<and> p2 + e \<noteq> p2 + 6 + d" using that by simp
      qed
      with F show ?thesis by blast
    qed
    show ?thesis
      unfolding N_def [symmetric]
    proof (intro allI impI)
      fix c k :: nat assume c: "c < 2 * N" and k: "k < 3"
      show "RGB' ! (p1 + 3 * c + k) =
          spec_pixel P (Y ! (y1 + c)) (U ! (up + c div 2)) (V ! (vp + c div 2)) ! k \<and>
        RGB' ! (p2 + 3 * c + k) =
          spec_pixel P (Y ! (y2 + c)) (U ! (up + c div 2)) (V ! (vp + c div 2)) ! k"
      proof (cases "c < 2")
        case True
        then have e: "3 * c + k < 6" using k by simp
        have c2: "c div 2 = 0" using True by simp
        from keep1 [OF e] keep2 [OF e] B [rule_format, OF True k]
        show ?thesis by (simp add: c2 add.assoc)
      next
        case False
        define c' where "c' = c - 2"
        have c': "c = c' + 2" "c' < 2 * (N - 1)" using False c unfolding c'_def by simp_all
        from IH [rule_format, OF c'(2) k]
        show ?thesis unfolding c'(1) by (simp add: add.assoc add.commute add.left_commute)
      qed
    qed
  qed
qed

lemma inv_rows_pixels:
  assumes "W \<noteq> 0" "H \<noteq> 0"
    and nowrap: "unat H * unat rs < 2 ^ 32" and pitch: "3 * unat W \<le> unat rs"
  shows "even (unat y) \<Longrightarrow>
    yuv420_rgb24_rows P W H Y U V ys uvs rs y RGB = Some (Inr RGB') \<Longrightarrow>
    \<forall>i j k. unat y \<le> i \<and> i < 2 * (unat H div 2) \<and> j < 2 * (unat W div 2) \<and> k < 3 \<longrightarrow>
      RGB' ! (i * unat rs + 3 * j + k) =
        spec_pixel P (Y ! (unat (of_nat i * ys) + j))
          (U ! (unat (of_nat (i div 2) * uvs) + j div 2))
          (V ! (unat (of_nat (i div 2) * uvs) + j div 2)) ! k"
proof (induction "unat H - unat y" arbitrary: y RGB rule: less_induct)
  case less
  have Hb: "unat H < 2 ^ 32"
    using unsigned_less [of H, where ?'a = nat] by simp
  note off = row_offset [OF _ Hb nowrap]
  show ?case
  proof (cases "y < H - 1")
    case False
    then have "unat H - unat y \<le> 1"
      using \<open>H \<noteq> 0\<close> by (simp add: word_less_nat_alt unat_minus_one)
    then have "2 * (unat H div 2) \<le> unat y"
      using less.prems(1) by presburger
    then show ?thesis by (intro allI impI, elim conjE) linarith
  next
    case True
    note st = loop_step [OF True \<open>H \<noteq> 0\<close>]
    from True less.prems(2) obtain RGB1 where
      row: "yuv420_rgb24_row P W Y U V 0
               (unat (y * ys)) (unat ((y + 1) * ys))
               (unat ((y div 2) * uvs)) (unat ((y div 2) * uvs))
               (unat (y * rs)) (unat ((y + 1) * rs)) RGB = Inr RGB1" and
      rest: "yuv420_rgb24_rows P W H Y U V ys uvs rs (y + 2) RGB1 = Some (Inr RGB')"
      by (subst (asm) yuv420_rgb24_rows.simps) (auto split: sum.splits)
    have ev: "even (unat (y + 2))" using less.prems(1) unfolding st(3) by simp
    have "unat H - unat (y + 2) < unat H - unat y" using st(1) unfolding st(3) by simp
    note IH = less.hyps [OF this ev rest]
    note F = inv_rows_frame [OF \<open>W \<noteq> 0\<close> \<open>H \<noteq> 0\<close> ev rest]
    define q where "q = unat y"
    have q: "even q" "q + 1 < unat H" "unat (y + 2) = q + 2" "(q + 1) div 2 = q div 2"
      using less.prems(1) st(1) unfolding st(3) q_def by presburger+
    have y0: "y = of_nat q" unfolding q_def by simp
    have y1: "y + 1 = of_nat (q + 1)" unfolding q_def by simp
    have yd: "unat (y div 2) = q div 2" by (simp add: unat_div q_def)
    have y2: "y div 2 = of_nat (q div 2)"
      by (subst yd [symmetric]) simp
    have p1: "unat (y * rs) = q * unat rs"
      unfolding y0 using q(2) by (intro off) simp
    have p2: "unat ((y + 1) * rs) = (q + 1) * unat rs"
      unfolding y1 using q(2) by (intro off) simp
    have w6: "6 * (unat W div 2) \<le> unat rs"
      using pitch by simp
    have sep: "unat (y * rs) + 6 * ((unat W - unat (0 :: u32)) div 2) \<le> unat ((y + 1) * rs)"
      unfolding p1 p2 using w6 by simp
    note R = inv_row_pixels [OF row \<open>W \<noteq> 0\<close> sep, unfolded p1 p2]
    have keep: "RGB' ! (i * unat rs + e) = RGB1 ! (i * unat rs + e)"
      if "i \<le> q + 1" "e < 6 * (unat W div 2)" for i e
    proof -
      have "\<forall>r c. unat (y + 2) \<le> r \<and> r < 2 * (unat H div 2) \<and> c < 6 * (unat W div 2)
            \<longrightarrow> i * unat rs + e \<noteq> unat (of_nat r * rs) + c"
      proof (intro allI impI)
        fix r c assume h: "unat (y + 2) \<le> r \<and> r < 2 * (unat H div 2) \<and> c < 6 * (unat W div 2)"
        then have "r \<le> unat H" by presburger
        then have o: "unat (of_nat r * rs) = r * unat rs"
          by (rule off)
        have "i + 1 \<le> r" using h that(1) unfolding q(3) by simp
        then have "(i + 1) * unat rs \<le> r * unat rs" by (rule mult_le_mono1)
        moreover have "e < unat rs" using that(2) w6 by simp
        ultimately have "i * unat rs + e < r * unat rs" by simp
        then show "i * unat rs + e \<noteq> unat (of_nat r * rs) + c"
          unfolding o by simp
      qed
      with F show ?thesis by blast
    qed
    show ?thesis
    proof (intro allI impI)
      fix i j k :: nat
      assume h: "unat y \<le> i \<and> i < 2 * (unat H div 2) \<and> j < 2 * (unat W div 2) \<and> k < 3"
      then have j: "j < 2 * ((unat W - unat (0 :: u32)) div 2)" and k: "k < 3"
        by simp_all
      have e: "3 * j + k < 6 * (unat W div 2)" using h by simp
      note Rj = R [rule_format, OF j k]
      show "RGB' ! (i * unat rs + 3 * j + k) =
        spec_pixel P (Y ! (unat (of_nat i * ys) + j))
          (U ! (unat (of_nat (i div 2) * uvs) + j div 2))
          (V ! (unat (of_nat (i div 2) * uvs) + j div 2)) ! k"
      proof (cases "i = q \<or> i = q + 1")
        case False
        then have "unat (y + 2) \<le> i \<and> i < 2 * (unat H div 2) \<and> j < 2 * (unat W div 2) \<and> k < 3"
          using h unfolding q(3) q_def by simp
        with IH show ?thesis by blast
      next
        case True
        then show ?thesis
        proof
          assume i: "i = q"
          have "RGB' ! (q * unat rs + (3 * j + k)) = RGB1 ! (q * unat rs + (3 * j + k))"
            using e by (intro keep) simp_all
          with Rj [THEN conjunct1] show ?thesis
            unfolding i y0 [symmetric] y2 [symmetric] by (simp add: add.assoc)
        next
          assume i: "i = q + 1"
          have "RGB' ! ((q + 1) * unat rs + (3 * j + k)) = RGB1 ! ((q + 1) * unat rs + (3 * j + k))"
            using e by (intro keep) simp_all
          with Rj [THEN conjunct2] show ?thesis
            unfolding i q(4) y1 [symmetric] y2 [symmetric] by (simp add: add.assoc)
        qed
      qed
    qed
  qed
qed

text \<open>
  Claim C4.  The body of the inverse loop reads one U and one V sample for the block
  (\<^verbatim>\<open>u_ptr[0]\<close>, \<^verbatim>\<open>v_ptr[0]\<close>) and four luma samples, and writes for each of the four
  pixels the three bytes R, G, B, interleaved, at \<^verbatim>\<open>rgb_ptr1[0..5]\<close> and \<^verbatim>\<open>rgb_ptr2[0..5]\<close>:
  \<open>R = saturate (Y' + R-offset)\<close>, \<open>G = saturate (Y' - G-offset)\<close>,
  \<open>B = saturate (Y' + B-offset)\<close> with \<open>Y' = (y_factor * (Y - y_offset)) >> 7\<close> and the
  block's offsets \<open>(cb_factor * (U - 128)) >> 6\<close>, \<open>(cr_factor * (V - 128)) >> 6\<close> and
  \<open>(g_cb_factor * (U - 128) + g_cr_factor * (V - 128)) >> 7\<close>.  The formulas are in
  unbounded integers and the theorem holds for every parameter record, so the
  \<^verbatim>\<open>int8_t\<close> and \<^verbatim>\<open>int16_t\<close> temporaries of the code never wrap.
  The conversion does this for every pixel of the even-aligned region: when
  \<^verbatim>\<open>yuv420_rgb24_std\<close> returns normally, and the rows of the RGB buffer do not overlap (the
  pitch \<^verbatim>\<open>RGB_stride\<close> is at least \<open>3 * width\<close> and the buffer size fits 32 bits), the three
  bytes of the pixel in row \<open>i\<close> and column \<open>j\<close> are these formulas of the luma sample in
  row \<open>i\<close> and column \<open>j\<close> and of the chroma samples in row \<open>i div 2\<close> and column \<open>j div 2\<close>:
  the four pixels of a block share the nearest chroma sample, and no chroma value is
  interpolated.
\<close>

theorem inverse_block_formulas:
  "(yuv420_rgb24_block P Y U V y_ptr1 y_ptr2 u_ptr v_ptr rgb_ptr1 rgb_ptr2 RGB = Inr RGB' \<longrightarrow>
     RGB' = RGB
      [rgb_ptr1 := word_of_int (spec_R P (Y ! y_ptr1) (U ! u_ptr) (V ! v_ptr)),
       rgb_ptr1 + 1 := word_of_int (spec_G P (Y ! y_ptr1) (U ! u_ptr) (V ! v_ptr)),
       rgb_ptr1 + 2 := word_of_int (spec_B P (Y ! y_ptr1) (U ! u_ptr) (V ! v_ptr)),
       rgb_ptr1 + 3 := word_of_int (spec_R P (Y ! (y_ptr1 + 1)) (U ! u_ptr) (V ! v_ptr)),
       rgb_ptr1 + 4 := word_of_int (spec_G P (Y ! (y_ptr1 + 1)) (U ! u_ptr) (V ! v_ptr)),
       rgb_ptr1 + 5 := word_of_int (spec_B P (Y ! (y_ptr1 + 1)) (U ! u_ptr) (V ! v_ptr)),
       rgb_ptr2 := word_of_int (spec_R P (Y ! y_ptr2) (U ! u_ptr) (V ! v_ptr)),
       rgb_ptr2 + 1 := word_of_int (spec_G P (Y ! y_ptr2) (U ! u_ptr) (V ! v_ptr)),
       rgb_ptr2 + 2 := word_of_int (spec_B P (Y ! y_ptr2) (U ! u_ptr) (V ! v_ptr)),
       rgb_ptr2 + 3 := word_of_int (spec_R P (Y ! (y_ptr2 + 1)) (U ! u_ptr) (V ! v_ptr)),
       rgb_ptr2 + 4 := word_of_int (spec_G P (Y ! (y_ptr2 + 1)) (U ! u_ptr) (V ! v_ptr)),
       rgb_ptr2 + 5 := word_of_int (spec_B P (Y ! (y_ptr2 + 1)) (U ! u_ptr) (V ! v_ptr))]) \<and>
   (yuv420_rgb24_std width height Y U V Y_stride UV_stride RGB RGB_stride T = Some (Inr RGB'') \<and>
    unat height * unat RGB_stride < 2 ^ 32 \<and> 3 * unat width \<le> unat RGB_stride \<and>
    i < 2 * (unat height div 2) \<and> j < 2 * (unat width div 2) \<longrightarrow>
     RGB'' ! (i * unat RGB_stride + 3 * j) =
       word_of_int (spec_R (YUV2RGB T) (Y ! (unat (of_nat i * Y_stride) + j))
         (U ! (unat (of_nat (i div 2) * UV_stride) + j div 2))
         (V ! (unat (of_nat (i div 2) * UV_stride) + j div 2))) \<and>
     RGB'' ! (i * unat RGB_stride + 3 * j + 1) =
       word_of_int (spec_G (YUV2RGB T) (Y ! (unat (of_nat i * Y_stride) + j))
         (U ! (unat (of_nat (i div 2) * UV_stride) + j div 2))
         (V ! (unat (of_nat (i div 2) * UV_stride) + j div 2))) \<and>
     RGB'' ! (i * unat RGB_stride + 3 * j + 2) =
       word_of_int (spec_B (YUV2RGB T) (Y ! (unat (of_nat i * Y_stride) + j))
         (U ! (unat (of_nat (i div 2) * UV_stride) + j div 2))
         (V ! (unat (of_nat (i div 2) * UV_stride) + j div 2))))"
proof (intro conjI impI)
  assume "yuv420_rgb24_block P Y U V y_ptr1 y_ptr2 u_ptr v_ptr rgb_ptr1 rgb_ptr2 RGB = Inr RGB'"
  then show "RGB' = RGB
      [rgb_ptr1 := word_of_int (spec_R P (Y ! y_ptr1) (U ! u_ptr) (V ! v_ptr)),
       rgb_ptr1 + 1 := word_of_int (spec_G P (Y ! y_ptr1) (U ! u_ptr) (V ! v_ptr)),
       rgb_ptr1 + 2 := word_of_int (spec_B P (Y ! y_ptr1) (U ! u_ptr) (V ! v_ptr)),
       rgb_ptr1 + 3 := word_of_int (spec_R P (Y ! (y_ptr1 + 1)) (U ! u_ptr) (V ! v_ptr)),
       rgb_ptr1 + 4 := word_of_int (spec_G P (Y ! (y_ptr1 + 1)) (U ! u_ptr) (V ! v_ptr)),
       rgb_ptr1 + 5 := word_of_int (spec_B P (Y ! (y_ptr1 + 1)) (U ! u_ptr) (V ! v_ptr)),
       rgb_ptr2 := word_of_int (spec_R P (Y ! y_ptr2) (U ! u_ptr) (V ! v_ptr)),
       rgb_ptr2 + 1 := word_of_int (spec_G P (Y ! y_ptr2) (U ! u_ptr) (V ! v_ptr)),
       rgb_ptr2 + 2 := word_of_int (spec_B P (Y ! y_ptr2) (U ! u_ptr) (V ! v_ptr)),
       rgb_ptr2 + 3 := word_of_int (spec_R P (Y ! (y_ptr2 + 1)) (U ! u_ptr) (V ! v_ptr)),
       rgb_ptr2 + 4 := word_of_int (spec_G P (Y ! (y_ptr2 + 1)) (U ! u_ptr) (V ! v_ptr)),
       rgb_ptr2 + 5 := word_of_int (spec_B P (Y ! (y_ptr2 + 1)) (U ! u_ptr) (V ! v_ptr))]"
    by (rule inv_block_formulas)
next
  assume h: "yuv420_rgb24_std width height Y U V Y_stride UV_stride RGB RGB_stride T
      = Some (Inr RGB'') \<and>
    unat height * unat RGB_stride < 2 ^ 32 \<and> 3 * unat width \<le> unat RGB_stride \<and>
    i < 2 * (unat height div 2) \<and> j < 2 * (unat width div 2)"
  then have W: "width \<noteq> 0" and H: "height \<noteq> 0"
    by auto
  have ev: "even (unat (0 :: u32))" by simp
  from h have ret: "yuv420_rgb24_rows (YUV2RGB T) width height Y U V Y_stride UV_stride RGB_stride
      0 RGB = Some (Inr RGB'')"
    and nowrap: "unat height * unat RGB_stride < 2 ^ 32"
    and pitch: "3 * unat width \<le> unat RGB_stride"
    and ij: "i < 2 * (unat height div 2)" "j < 2 * (unat width div 2)"
    by (simp_all add: yuv420_rgb24_std_def)
  note R = inv_rows_pixels [OF W H nowrap pitch ev ret, rule_format]
  have "RGB'' ! (i * unat RGB_stride + 3 * j + k) =
      spec_pixel (YUV2RGB T) (Y ! (unat (of_nat i * Y_stride) + j))
        (U ! (unat (of_nat (i div 2) * UV_stride) + j div 2))
        (V ! (unat (of_nat (i div 2) * UV_stride) + j div 2)) ! k" if "k < 3" for k
    using ij that by (intro R) simp
  from this [of 0] this [of 1] this [of 2]
  show "RGB'' ! (i * unat RGB_stride + 3 * j) =
       word_of_int (spec_R (YUV2RGB T) (Y ! (unat (of_nat i * Y_stride) + j))
         (U ! (unat (of_nat (i div 2) * UV_stride) + j div 2))
         (V ! (unat (of_nat (i div 2) * UV_stride) + j div 2)))"
    and "RGB'' ! (i * unat RGB_stride + 3 * j + 1) =
       word_of_int (spec_G (YUV2RGB T) (Y ! (unat (of_nat i * Y_stride) + j))
         (U ! (unat (of_nat (i div 2) * UV_stride) + j div 2))
         (V ! (unat (of_nat (i div 2) * UV_stride) + j div 2)))"
    and "RGB'' ! (i * unat RGB_stride + 3 * j + 2) =
       word_of_int (spec_B (YUV2RGB T) (Y ! (unat (of_nat i * Y_stride) + j))
         (U ! (unat (of_nat (i div 2) * UV_stride) + j div 2))
         (V ! (unat (of_nat (i div 2) * UV_stride) + j div 2)))"
    by (simp_all add: spec_pixel_def)
qed

text \<open>A block of BT601, and a 4x4 image: the pixel in row 3 and column 2 has the luma
  210 and the chroma samples of row 1 and column 1, 90 and 240, which give the bytes
  255, 149 and 148; the chroma samples of row 0 and column 1 would give a red byte
  of 21.\<close>

theorem inverse_block_formulas_witness:
  "yuv420_rgb24_block (YUV2RGB BT601) [0, 128, 255, 16, 235, 200] [0, 77] [255, 3] 0 3 0 0 0 9
      (replicate 18 7)
     = Inr [183, 0, 0, 255, 77, 0, 7, 7, 7, 202, 0, 0, 255, 201, 0, 7, 7, 7] \<and>
   spec_R (YUV2RGB BT601) 0 0 255 = 183 \<and> spec_G (YUV2RGB BT601) 0 0 255 = 0 \<and>
   spec_B (YUV2RGB BT601) 0 0 255 = 0 \<and>
   spec_R (YUV2RGB BT601) 235 0 255 = 255 \<and> spec_G (YUV2RGB BT601) 235 0 255 = 201 \<and>
   spec_B (YUV2RGB BT601) 235 0 255 = 0 \<and>
   yuv420_rgb24_std 4 4 [16, 235, 128, 0, 255, 100, 50, 200, 81, 144, 40, 47, 90, 180, 210, 33]
      [128, 0, 255, 90] [128, 255, 0, 240] 4 2 (replicate 48 7) 12 BT601
     = Some (Inr [0, 0, 0, 254, 254, 254, 255, 77, 0, 183, 0, 0,
                  255, 255, 255, 97, 97, 97, 241, 0, 0, 255, 161, 0,
                  0, 130, 255, 0, 204, 255, 205, 0, 0, 214, 0, 0,
                  0, 141, 255, 0, 245, 255, 255, 149, 148, 197, 0, 0]) \<and>
   spec_R (YUV2RGB BT601) 210 90 240 = 255 \<and> spec_G (YUV2RGB BT601) 210 90 240 = 149 \<and>
   spec_B (YUV2RGB BT601) 210 90 240 = 148 \<and>
   spec_R (YUV2RGB BT601) 210 255 0 = 21"
proof -
  let ?Y = "[16, 235, 128, 0, 255, 100, 50, 200, 81, 144, 40, 47, 90, 180, 210, 33] :: u8 list"
  let ?out = "[0, 0, 0, 254, 254, 254, 255, 77, 0, 183, 0, 0,
                  255, 255, 255, 97, 97, 97, 241, 0, 0, 255, 161, 0,
                  0, 130, 255, 0, 204, 255, 205, 0, 0, 214, 0, 0,
                  0, 141, 255, 0, 245, 255, 255, 149, 148, 197, 0, 0] :: u8 list"
  have blk: "yuv420_rgb24_block (YUV2RGB BT601) [0, 128, 255, 16, 235, 200] [0, 77] [255, 3]
      0 3 0 0 0 9 (replicate 18 7)
     = Inr [183, 0, 0, 255, 77, 0, 7, 7, 7, 202, 0, 0, 255, 201, 0, 7, 7, 7]"
    by code_simp
  have px: "spec_R (YUV2RGB BT601) 0 0 255 = 183" "spec_G (YUV2RGB BT601) 0 0 255 = 0"
    "spec_B (YUV2RGB BT601) 0 0 255 = 0" "spec_R (YUV2RGB BT601) 235 0 255 = 255"
    "spec_G (YUV2RGB BT601) 235 0 255 = 201" "spec_B (YUV2RGB BT601) 235 0 255 = 0"
    "spec_R (YUV2RGB BT601) 210 90 240 = 255" "spec_G (YUV2RGB BT601) 210 90 240 = 149"
    "spec_B (YUV2RGB BT601) 210 90 240 = 148" "spec_R (YUV2RGB BT601) 210 255 0 = 21"
    by code_simp+
  have std: "yuv420_rgb24_std 4 4 ?Y [128, 0, 255, 90] [128, 255, 0, 240] 4 2 (replicate 48 7) 12
      BT601 = Some (Inr ?out)"
    by code_simp
  have hyp: "unat (4 :: u32) * unat (12 :: u32) < 2 ^ 32 \<and> 3 * unat (4 :: u32) \<le> unat (12 :: u32) \<and>
    (3 :: nat) < 2 * (unat (4 :: u32) div 2) \<and> (2 :: nat) < 2 * (unat (4 :: u32) div 2)"
    by simp
  note conv = inverse_block_formulas [where T = BT601 and width = 4 and height = 4 and Y = ?Y
      and U = "[128, 0, 255, 90]" and V = "[128, 255, 0, 240]" and Y_stride = 4 and UV_stride = 2
      and RGB = "replicate 48 7" and RGB_stride = 12 and RGB'' = ?out and i = 3 and j = 2,
      THEN conjunct2, rule_format, OF conjI [OF std hyp]]
  show ?thesis
    using inverse_block_formulas [THEN conjunct1, rule_format, OF blk] blk px std conv
    by simp
qed

section \<open>Images with a zero dimension\<close>

lemma even_word_less_max:
  fixes x :: u32
  assumes "even x"
  shows "x < 0 - 1"
proof -
  have "x \<noteq> - 1" using assms by auto
  then show ?thesis by (simp add: word_order.not_eq_extremum)
qed

lemma fwd_row_width0:
  "even x \<Longrightarrow> rgb24_yuv420_row P 0 RGB x p1 p2 y1 y2 up vp s = Inl OutOfBounds"
proof (induction P "0 :: u32" RGB x p1 p2 y1 y2 up vp s rule: rgb24_yuv420_row.induct)
  case (1 P RGB x p1 p2 y1 y2 up vp s)
  have lt: "x < 0 - 1" using "1.prems" by (rule even_word_less_max)
  have ev: "even (x + 2)" using "1.prems" by simp
  show ?case
  proof (cases "rgb24_yuv420_block P RGB p1 p2 y1 y2 up vp s")
    case (Inl e)
    then show ?thesis using lt by (subst rgb24_yuv420_row.simps) (cases e, simp)
  next
    case (Inr s1)
    from "1.hyps" [OF lt Inr ev] Inr lt show ?thesis
      by (subst rgb24_yuv420_row.simps) simp
  qed
qed


lemma fwd_rows_height0_aux:
  assumes "rgb24_yuv420_rows P W H RGB rs ys uvs y s = Some res"
  shows "H = 0 \<longrightarrow> even y \<longrightarrow> res = Inl OutOfBounds \<and> W \<noteq> 1"
proof -
  let ?Pred = "\<lambda>t res. case t of ((((((((P, W), H), RGB), rs), ys), uvs), y), s) \<Rightarrow>
       (H = (0::u32) \<longrightarrow> even (y::u32) \<longrightarrow>
          res = (Inl OutOfBounds :: fault + yuv_planes) \<and> W \<noteq> (1::u32))"
  have "?Pred ((((((((P, W), H), RGB), rs), ys), uvs), y), s) res"
  proof (rule rgb24_yuv420_rows.raw_induct [where Pa = ?Pred, OF _ assms])
    fix f :: "RGB2YUVParam \<Rightarrow> u32 \<Rightarrow> u32 \<Rightarrow> u8 list \<Rightarrow> u32 \<Rightarrow> u32 \<Rightarrow> u32 \<Rightarrow> u32 \<Rightarrow> yuv_planes
        \<Rightarrow> (fault + yuv_planes) option"
      and P W H RGB rs ys uvs y s res
    assume IH: "\<And>P W H RGB rs ys uvs y s res. f P W H RGB rs ys uvs y s = Some res \<Longrightarrow>
        ?Pred ((((((((P, W), H), RGB), rs), ys), uvs), y), s) res"
      and step: "(if y < H - 1 then
         (case rgb24_yuv420_row P W RGB 0
               (unat (y * rs)) (unat ((y + 1) * rs))
               (unat (y * ys)) (unat ((y + 1) * ys))
               (unat ((y div 2) * uvs)) (unat ((y div 2) * uvs)) s of
          Inl e \<Rightarrow> Some (Inl e)
        | Inr s' \<Rightarrow> f P W H RGB rs ys uvs (y + 2) s')
       else Some (Inr s)) = Some res"
    have "res = Inl OutOfBounds \<and> W \<noteq> 1" if H: "H = 0" and ev: "even y"
    proof -
      have lt: "y < H - 1" unfolding H using ev by (rule even_word_less_max)
      show ?thesis
      proof (cases "rgb24_yuv420_row P W RGB 0
               (unat (y * rs)) (unat ((y + 1) * rs))
               (unat (y * ys)) (unat ((y + 1) * ys))
               (unat ((y div 2) * uvs)) (unat ((y div 2) * uvs)) s")
        case (Inl e)
        have "W \<noteq> 1" using Inl by (auto simp add: rgb24_yuv420_row.simps)
        moreover have "res = Inl OutOfBounds" using step lt Inl by (cases e) simp
        ultimately show ?thesis by simp
      next
        case (Inr s1)
        with step lt have "f P W H RGB rs ys uvs (y + 2) s1 = Some res" by simp
        from IH [OF this] H ev show ?thesis by simp
      qed
    qed
    then show "?Pred ((((((((P, W), H), RGB), rs), ys), uvs), y), s) res" by simp
  qed
  then show ?thesis by simp
qed


lemma inv_row_width0:
  "even x \<Longrightarrow> yuv420_rgb24_row P 0 Y U V x y1 y2 up vp p1 p2 RGB = Inl OutOfBounds"
proof (induction P "0 :: u32" Y U V x y1 y2 up vp p1 p2 RGB rule: yuv420_rgb24_row.induct)
  case (1 P Y U V x y1 y2 up vp p1 p2 RGB)
  have lt: "x < 0 - 1" using "1.prems" by (rule even_word_less_max)
  have ev: "even (x + 2)" using "1.prems" by simp
  show ?case
  proof (cases "yuv420_rgb24_block P Y U V y1 y2 up vp p1 p2 RGB")
    case (Inl e)
    then show ?thesis using lt by (subst yuv420_rgb24_row.simps) (cases e, simp)
  next
    case (Inr RGB1)
    from "1.hyps" [OF lt Inr ev] Inr lt show ?thesis
      by (subst yuv420_rgb24_row.simps) simp
  qed
qed

lemma inv_rows_height0_aux:
  assumes "yuv420_rgb24_rows P W H Y U V ys uvs rs y RGB = Some res"
  shows "H = 0 \<longrightarrow> even y \<longrightarrow> res = Inl OutOfBounds \<and> W \<noteq> 1"
proof -
  let ?Pred = "\<lambda>t res. case t of ((((((((((P, W), H), Y), U), V), ys), uvs), rs), y), RGB) \<Rightarrow>
       (H = (0::u32) \<longrightarrow> even (y::u32) \<longrightarrow>
          res = (Inl OutOfBounds :: fault + u8 list) \<and> W \<noteq> (1::u32))"
  have "?Pred ((((((((((P, W), H), Y), U), V), ys), uvs), rs), y), RGB) res"
  proof (rule yuv420_rgb24_rows.raw_induct [where Pa = ?Pred, OF _ assms])
    fix f :: "YUV2RGBParam \<Rightarrow> u32 \<Rightarrow> u32 \<Rightarrow> u8 list \<Rightarrow> u8 list \<Rightarrow> u8 list \<Rightarrow> u32 \<Rightarrow> u32 \<Rightarrow> u32
        \<Rightarrow> u32 \<Rightarrow> u8 list \<Rightarrow> (fault + u8 list) option"
      and P W H Y U V ys uvs rs y RGB res
    assume IH: "\<And>P W H Y U V ys uvs rs y RGB res. f P W H Y U V ys uvs rs y RGB = Some res \<Longrightarrow>
        ?Pred ((((((((((P, W), H), Y), U), V), ys), uvs), rs), y), RGB) res"
      and step: "(if y < H - 1 then
         (case yuv420_rgb24_row P W Y U V 0
               (unat (y * ys)) (unat ((y + 1) * ys))
               (unat ((y div 2) * uvs)) (unat ((y div 2) * uvs))
               (unat (y * rs)) (unat ((y + 1) * rs)) RGB of
          Inl e \<Rightarrow> Some (Inl e)
        | Inr RGB' \<Rightarrow> f P W H Y U V ys uvs rs (y + 2) RGB')
       else Some (Inr RGB)) = Some res"
    have "res = Inl OutOfBounds \<and> W \<noteq> 1" if H: "H = 0" and ev: "even y"
    proof -
      have lt: "y < H - 1" unfolding H using ev by (rule even_word_less_max)
      show ?thesis
      proof (cases "yuv420_rgb24_row P W Y U V 0
               (unat (y * ys)) (unat ((y + 1) * ys))
               (unat ((y div 2) * uvs)) (unat ((y div 2) * uvs))
               (unat (y * rs)) (unat ((y + 1) * rs)) RGB")
        case (Inl e)
        have "W \<noteq> 1" using Inl by (auto simp add: yuv420_rgb24_row.simps)
        moreover have "res = Inl OutOfBounds" using step lt Inl by (cases e) simp
        ultimately show ?thesis by simp
      next
        case (Inr RGB1)
        with step lt have "f P W H Y U V ys uvs rs (y + 2) RGB1 = Some res" by simp
        from IH [OF this] H ev show ?thesis by simp
      qed
    qed
    then show "?Pred ((((((((((P, W), H), Y), U), V), ys), uvs), rs), y), RGB) res" by simp
  qed
  then show ?thesis by simp
qed

lemma guard_0: "(0 :: u32) < n - 1 \<longleftrightarrow> n \<noteq> 1"
  by (simp add: word_greater_zero_iff)

lemma fwd_rows_width1_height0:
  "rgb24_yuv420_rows P 1 0 RGB rs ys uvs 0 s = None"
proof (cases "rgb24_yuv420_rows P 1 0 RGB rs ys uvs 0 s")
  case (Some res)
  from fwd_rows_height0_aux [OF Some] show ?thesis by simp
qed simp

lemma inv_rows_width1_height0:
  "yuv420_rgb24_rows P 1 0 Y U V ys uvs rs 0 RGB = None"
proof (cases "yuv420_rgb24_rows P 1 0 Y U V ys uvs rs 0 RGB")
  case (Some res)
  from inv_rows_height0_aux [OF Some] show ?thesis by simp
qed simp

lemma fwd_passes_rows:
  "rgb24_yuv420_passes n P W H RGB rs ys uvs y s = Inr (y', s') \<Longrightarrow>
     rgb24_yuv420_rows P W H RGB rs ys uvs y s = rgb24_yuv420_rows P W H RGB rs ys uvs y' s'"
proof (induction n arbitrary: y s)
  case 0
  then show ?case by simp
next
  case (Suc n)
  show ?case
  proof (cases "y < H - 1")
    case False
    with Suc.prems show ?thesis by simp
  next
    case True
    with Suc.prems obtain s1 where
      row: "rgb24_yuv420_row P W RGB 0 (unat (y * rs)) (unat ((y + 1) * rs))
              (unat (y * ys)) (unat ((y + 1) * ys))
              (unat ((y div 2) * uvs)) (unat ((y div 2) * uvs)) s = Inr s1" and
      rest: "rgb24_yuv420_passes n P W H RGB rs ys uvs (y + 2) s1 = Inr (y', s')"
      by (auto split: sum.splits)
    from Suc.IH [OF rest] True row show ?thesis
      by (subst rgb24_yuv420_rows.simps) simp
  qed
qed

lemma inv_passes_rows:
  "yuv420_rgb24_passes n P W H Y U V ys uvs rs y RGB = Inr (y', RGB') \<Longrightarrow>
     yuv420_rgb24_rows P W H Y U V ys uvs rs y RGB = yuv420_rgb24_rows P W H Y U V ys uvs rs y' RGB'"
proof (induction n arbitrary: y RGB)
  case 0
  then show ?case by simp
next
  case (Suc n)
  show ?case
  proof (cases "y < H - 1")
    case False
    with Suc.prems show ?thesis by simp
  next
    case True
    with Suc.prems obtain RGB1 where
      row: "yuv420_rgb24_row P W Y U V 0 (unat (y * ys)) (unat ((y + 1) * ys))
              (unat ((y div 2) * uvs)) (unat ((y div 2) * uvs))
              (unat (y * rs)) (unat ((y + 1) * rs)) RGB = Inr RGB1" and
      rest: "yuv420_rgb24_passes n P W H Y U V ys uvs rs (y + 2) RGB1 = Inr (y', RGB')"
      by (auto split: sum.splits)
    from Suc.IH [OF rest] True row show ?thesis
      by (subst yuv420_rgb24_rows.simps) simp
  qed
qed

lemma fwd_row_width1:
  "rgb24_yuv420_row P 1 RGB x p1 p2 y1 y2 up vp s = Inr s"
  by (subst rgb24_yuv420_row.simps) simp

lemma inv_row_width1:
  "yuv420_rgb24_row P 1 Y U V x y1 y2 up vp p1 p2 RGB = Inr RGB"
  by (subst yuv420_rgb24_row.simps) simp

lemma fwd_passes_width1_height0:
  "even y \<Longrightarrow> rgb24_yuv420_passes n P 1 0 RGB rs ys uvs y s = Inr (y + 2 * of_nat n, s)"
proof (induction n arbitrary: y)
  case 0
  then show ?case by simp
next
  case (Suc n)
  have g: "y < 0 - 1" using Suc.prems by (rule even_word_less_max)
  have "even (y + 2)" using Suc.prems by simp
  from Suc.IH [OF this] g show ?case
    by (simp add: fwd_row_width1 algebra_simps)
qed

lemma inv_passes_width1_height0:
  "even y \<Longrightarrow> yuv420_rgb24_passes n P 1 0 Y U V ys uvs rs y RGB = Inr (y + 2 * of_nat n, RGB)"
proof (induction n arbitrary: y)
  case 0
  then show ?case by simp
next
  case (Suc n)
  have g: "y < 0 - 1" using Suc.prems by (rule even_word_less_max)
  have "even (y + 2)" using Suc.prems by simp
  from Suc.IH [OF this] g show ?case
    by (simp add: inv_row_width1 algebra_simps)
qed

text \<open>
  Claim C10, as amended.  The loop guards \<^verbatim>\<open>y < height - 1\<close> and \<^verbatim>\<open>x < width - 1\<close> compare
  32-bit unsigned values, so for \<open>width = 0\<close> or \<open>height = 0\<close> the bound wraps around to
  \<open>2 ^ 32 - 1\<close>.  When the other dimension is not 1 the loop body does execute: the call
  starts with the block at offset 0, and it does not return normally.  For \<open>width = 0\<close>
  (and \<open>height \<noteq> 1\<close>) the inner loop can only end by leaving a buffer, the fault
  \<open>OutOfBounds\<close>; for \<open>height = 0\<close> the outer loop never ends normally (a fault, or no
  return at all).  When the other dimension is 1 no block is executed: for \<open>height = 1\<close>
  the outer loop is not entered and the planes are returned untouched, also for
  \<open>width = 0\<close>; for \<open>width = 1\<close> the inner loop returns the planes as they are, from every
  position, and for \<open>width = 1\<close> and \<open>height = 0\<close> the call does not return while, after any
  number \<open>n\<close> of passes of the outer loop, the loop counter is \<open>2 * n\<close> and the planes are
  what they were at the call.
\<close>

theorem zero_dimension_behaviour:
  "(width = 0 \<and> height \<noteq> 1 \<longrightarrow>
      rgb24_yuv420_std width height RGB RGB_stride s Y_stride UV_stride T = Some (Inl OutOfBounds) \<and>
      yuv420_rgb24_std width height Y U V Y_stride UV_stride RGB0 RGB_stride T
        = Some (Inl OutOfBounds)) \<and>
   (height = 0 \<longrightarrow>
      (\<forall>s'. rgb24_yuv420_std width height RGB RGB_stride s Y_stride UV_stride T \<noteq> Some (Inr s')) \<and>
      (\<forall>RGB'. yuv420_rgb24_std width height Y U V Y_stride UV_stride RGB0 RGB_stride T
         \<noteq> Some (Inr RGB'))) \<and>
   ((width = 0 \<or> height = 0) \<and> width \<noteq> 1 \<and> height \<noteq> 1 \<longrightarrow>
      rgb24_yuv420_std width height RGB RGB_stride s Y_stride UV_stride T =
        (case rgb24_yuv420_block (RGB2YUV T) RGB 0 (unat RGB_stride) 0 (unat Y_stride) 0 0 s of
           Inl e \<Rightarrow> Some (Inl e)
         | Inr s1 \<Rightarrow>
            (case rgb24_yuv420_row (RGB2YUV T) width RGB 2 6 (unat RGB_stride + 6)
                    2 (unat Y_stride + 2) 1 1 s1 of
               Inl e \<Rightarrow> Some (Inl e)
             | Inr s2 \<Rightarrow> rgb24_yuv420_rows (RGB2YUV T) width height RGB RGB_stride Y_stride
                           UV_stride 2 s2)) \<and>
      yuv420_rgb24_std width height Y U V Y_stride UV_stride RGB0 RGB_stride T =
        (case yuv420_rgb24_block (YUV2RGB T) Y U V 0 (unat Y_stride) 0 0 0 (unat RGB_stride) RGB0 of
           Inl e \<Rightarrow> Some (Inl e)
         | Inr RGB1 \<Rightarrow>
            (case yuv420_rgb24_row (YUV2RGB T) width Y U V 2 2 (unat Y_stride + 2) 1 1
                    6 (unat RGB_stride + 6) RGB1 of
               Inl e \<Rightarrow> Some (Inl e)
             | Inr RGB2 \<Rightarrow> yuv420_rgb24_rows (YUV2RGB T) width height Y U V Y_stride UV_stride
                             RGB_stride 2 RGB2))) \<and>
   (height = 1 \<longrightarrow>
      rgb24_yuv420_std width height RGB RGB_stride s Y_stride UV_stride T = Some (Inr s) \<and>
      yuv420_rgb24_std width height Y U V Y_stride UV_stride RGB0 RGB_stride T = Some (Inr RGB0)) \<and>
   (width = 1 \<longrightarrow>
      rgb24_yuv420_row (RGB2YUV T) width RGB x p1 p2 q1 q2 up vp s = Inr s \<and>
      yuv420_rgb24_row (YUV2RGB T) width Y U V x q1 q2 up vp p1 p2 RGB0 = Inr RGB0) \<and>
   (width = 1 \<and> height = 0 \<longrightarrow>
      rgb24_yuv420_std width height RGB RGB_stride s Y_stride UV_stride T = None \<and>
      yuv420_rgb24_std width height Y U V Y_stride UV_stride RGB0 RGB_stride T = None \<and>
      (\<forall>n. rgb24_yuv420_passes n (RGB2YUV T) width height RGB RGB_stride Y_stride UV_stride 0 s
         = Inr (2 * of_nat n, s)) \<and>
      (\<forall>n. yuv420_rgb24_passes n (YUV2RGB T) width height Y U V Y_stride UV_stride RGB_stride 0
           RGB0 = Inr (2 * of_nat n, RGB0)))"
proof -
  have ev0: "even (0 :: u32)" by simp
  have a: "rgb24_yuv420_std width height RGB RGB_stride s Y_stride UV_stride T = Some (Inl OutOfBounds) \<and>
      yuv420_rgb24_std width height Y U V Y_stride UV_stride RGB0 RGB_stride T
        = Some (Inl OutOfBounds)"
    if "width = 0 \<and> height \<noteq> 1"
  proof -
    from that have g: "0 < height - 1" by (simp add: guard_0)
    have "rgb24_yuv420_rows (RGB2YUV T) 0 height RGB RGB_stride Y_stride UV_stride 0 s
        = Some (Inl OutOfBounds)"
      using g by (subst rgb24_yuv420_rows.simps) (simp add: fwd_row_width0 del: RGB2YUV.simps)
    moreover have "yuv420_rgb24_rows (YUV2RGB T) 0 height Y U V Y_stride UV_stride RGB_stride 0 RGB0
        = Some (Inl OutOfBounds)"
      using g by (subst yuv420_rgb24_rows.simps) (simp add: inv_row_width0 del: YUV2RGB.simps)
    ultimately show ?thesis using that by (simp add: rgb24_yuv420_std_def yuv420_rgb24_std_def)
  qed
  have b: "(\<forall>s'. rgb24_yuv420_std width height RGB RGB_stride s Y_stride UV_stride T \<noteq> Some (Inr s')) \<and>
      (\<forall>RGB'. yuv420_rgb24_std width height Y U V Y_stride UV_stride RGB0 RGB_stride T
         \<noteq> Some (Inr RGB'))"
    if "height = 0"
    using that fwd_rows_height0_aux [of "RGB2YUV T" width height RGB RGB_stride Y_stride UV_stride 0 s]
      inv_rows_height0_aux [of "YUV2RGB T" width height Y U V Y_stride UV_stride RGB_stride 0 RGB0]
    by (auto simp add: rgb24_yuv420_std_def yuv420_rgb24_std_def simp del: RGB2YUV.simps YUV2RGB.simps)
  have c: "rgb24_yuv420_std width height RGB RGB_stride s Y_stride UV_stride T =
        (case rgb24_yuv420_block (RGB2YUV T) RGB 0 (unat RGB_stride) 0 (unat Y_stride) 0 0 s of
           Inl e \<Rightarrow> Some (Inl e)
         | Inr s1 \<Rightarrow>
            (case rgb24_yuv420_row (RGB2YUV T) width RGB 2 6 (unat RGB_stride + 6)
                    2 (unat Y_stride + 2) 1 1 s1 of
               Inl e \<Rightarrow> Some (Inl e)
             | Inr s2 \<Rightarrow> rgb24_yuv420_rows (RGB2YUV T) width height RGB RGB_stride Y_stride
                           UV_stride 2 s2)) \<and>
      yuv420_rgb24_std width height Y U V Y_stride UV_stride RGB0 RGB_stride T =
        (case yuv420_rgb24_block (YUV2RGB T) Y U V 0 (unat Y_stride) 0 0 0 (unat RGB_stride) RGB0 of
           Inl e \<Rightarrow> Some (Inl e)
         | Inr RGB1 \<Rightarrow>
            (case yuv420_rgb24_row (YUV2RGB T) width Y U V 2 2 (unat Y_stride + 2) 1 1
                    6 (unat RGB_stride + 6) RGB1 of
               Inl e \<Rightarrow> Some (Inl e)
             | Inr RGB2 \<Rightarrow> yuv420_rgb24_rows (YUV2RGB T) width height Y U V Y_stride UV_stride
                             RGB_stride 2 RGB2))"
    if "width \<noteq> 1 \<and> height \<noteq> 1"
  proof -
    from that have g: "0 < height - 1" "0 < width - 1" by (simp_all add: guard_0)
    have "rgb24_yuv420_rows (RGB2YUV T) width height RGB RGB_stride Y_stride UV_stride 0 s =
        (case rgb24_yuv420_block (RGB2YUV T) RGB 0 (unat RGB_stride) 0 (unat Y_stride) 0 0 s of
           Inl e \<Rightarrow> Some (Inl e)
         | Inr s1 \<Rightarrow>
            (case rgb24_yuv420_row (RGB2YUV T) width RGB 2 6 (unat RGB_stride + 6)
                    2 (unat Y_stride + 2) 1 1 s1 of
               Inl e \<Rightarrow> Some (Inl e)
             | Inr s2 \<Rightarrow> rgb24_yuv420_rows (RGB2YUV T) width height RGB RGB_stride Y_stride
                           UV_stride 2 s2))"
      apply (subst rgb24_yuv420_rows.simps)
      apply (subst rgb24_yuv420_row.simps)
      using g
      apply (cases "rgb24_yuv420_block (RGB2YUV T) RGB 0 (unat RGB_stride) 0 (unat Y_stride) 0 0 s")
       apply (simp_all del: RGB2YUV.simps add_2_eq_Suc add_2_eq_Suc' cong: sum.case_cong)
      done
    moreover
    have "yuv420_rgb24_rows (YUV2RGB T) width height Y U V Y_stride UV_stride RGB_stride 0 RGB0 =
        (case yuv420_rgb24_block (YUV2RGB T) Y U V 0 (unat Y_stride) 0 0 0 (unat RGB_stride) RGB0 of
           Inl e \<Rightarrow> Some (Inl e)
         | Inr RGB1 \<Rightarrow>
            (case yuv420_rgb24_row (YUV2RGB T) width Y U V 2 2 (unat Y_stride + 2) 1 1
                    6 (unat RGB_stride + 6) RGB1 of
               Inl e \<Rightarrow> Some (Inl e)
             | Inr RGB2 \<Rightarrow> yuv420_rgb24_rows (YUV2RGB T) width height Y U V Y_stride UV_stride
                             RGB_stride 2 RGB2))"
      apply (subst yuv420_rgb24_rows.simps)
      apply (subst yuv420_rgb24_row.simps)
      using g
      apply (cases "yuv420_rgb24_block (YUV2RGB T) Y U V 0 (unat Y_stride) 0 0 0 (unat RGB_stride) RGB0")
       apply (simp_all del: YUV2RGB.simps add_2_eq_Suc add_2_eq_Suc' cong: sum.case_cong)
      done
    ultimately show ?thesis
      unfolding rgb24_yuv420_std_def yuv420_rgb24_std_def by (rule conjI)
  qed
  have d: "rgb24_yuv420_std width height RGB RGB_stride s Y_stride UV_stride T = Some (Inr s) \<and>
      yuv420_rgb24_std width height Y U V Y_stride UV_stride RGB0 RGB_stride T = Some (Inr RGB0)"
    if "height = 1"
    using that
    by (simp add: rgb24_yuv420_std_def yuv420_rgb24_std_def fwd_rows_height1 inv_rows_height1
        del: RGB2YUV.simps YUV2RGB.simps)
  have e: "rgb24_yuv420_std width height RGB RGB_stride s Y_stride UV_stride T = None \<and>
      yuv420_rgb24_std width height Y U V Y_stride UV_stride RGB0 RGB_stride T = None \<and>
      (\<forall>n. rgb24_yuv420_passes n (RGB2YUV T) width height RGB RGB_stride Y_stride UV_stride 0 s
         = Inr (2 * of_nat n, s)) \<and>
      (\<forall>n. yuv420_rgb24_passes n (YUV2RGB T) width height Y U V Y_stride UV_stride RGB_stride 0
           RGB0 = Inr (2 * of_nat n, RGB0))"
    if "width = 1 \<and> height = 0"
    using that
    by (simp add: rgb24_yuv420_std_def yuv420_rgb24_std_def fwd_rows_width1_height0
        inv_rows_width1_height0 fwd_passes_width1_height0 inv_passes_width1_height0
        del: RGB2YUV.simps YUV2RGB.simps)
  have f: "rgb24_yuv420_row (RGB2YUV T) width RGB x p1 p2 q1 q2 up vp s = Inr s \<and>
      yuv420_rgb24_row (YUV2RGB T) width Y U V x q1 q2 up vp p1 p2 RGB0 = Inr RGB0"
    if "width = 1"
    using that by (simp add: fwd_row_width1 inv_row_width1 del: RGB2YUV.simps YUV2RGB.simps)
  from a b c d e f show ?thesis by blast
qed

theorem zero_dimension_behaviour_witness:
  "rgb24_yuv420_std 0 2 (replicate 12 255) 6
      \<lparr>Y_plane = [0, 0, 0, 0], U_plane = [0], V_plane = [0]\<rparr> 2 1 BT601 = Some (Inl OutOfBounds) \<and>
   yuv420_rgb24_std 0 2 [0, 128, 255, 16] [0] [255] 2 1 (replicate 12 7) 6 BT601
     = Some (Inl OutOfBounds) \<and>
   rgb24_yuv420_block (RGB2YUV BT601) (replicate 12 255) 0 6 0 2 0 0
      \<lparr>Y_plane = [0, 0, 0, 0], U_plane = [0], V_plane = [0]\<rparr>
     = Inr \<lparr>Y_plane = [235, 235, 235, 235], U_plane = [128], V_plane = [128]\<rparr> \<and>
   rgb24_yuv420_std 2 0 (replicate 12 255) 6
      \<lparr>Y_plane = [0, 0, 0, 0], U_plane = [0], V_plane = [0]\<rparr> 2 1 BT601 = Some (Inl OutOfBounds) \<and>
   rgb24_yuv420_std 1 0 (replicate 12 255) 6
      \<lparr>Y_plane = [0, 0, 0, 0], U_plane = [0], V_plane = [0]\<rparr> 2 1 BT601 = None \<and>
   rgb24_yuv420_row (RGB2YUV BT601) 1 (replicate 12 255) 0 0 6 0 2 0 0
      \<lparr>Y_plane = [0, 0, 0, 0], U_plane = [0], V_plane = [0]\<rparr>
     = Inr \<lparr>Y_plane = [0, 0, 0, 0], U_plane = [0], V_plane = [0]\<rparr> \<and>
   rgb24_yuv420_passes 3 (RGB2YUV BT601) 1 0 (replicate 12 255) 6 2 1 0
      \<lparr>Y_plane = [0, 0, 0, 0], U_plane = [0], V_plane = [0]\<rparr>
     = Inr (6, \<lparr>Y_plane = [0, 0, 0, 0], U_plane = [0], V_plane = [0]\<rparr>) \<and>
   yuv420_rgb24_passes 3 (YUV2RGB BT601) 1 0 [0, 128, 255, 16] [0] [255] 2 1 6 0 (replicate 12 7)
     = Inr (6, replicate 12 7)"
proof -
  note Z = zero_dimension_behaviour [of 0 2 "replicate 12 255" 6
      "\<lparr>Y_plane = [0, 0, 0, 0], U_plane = [0], V_plane = [0]\<rparr>" 2 1 BT601
      "[0, 128, 255, 16]" "[0]" "[255]" "replicate 12 7"]
  have h: "(0 :: u32) = 0 \<and> (2 :: u32) \<noteq> 1" by simp
  from Z h have a: "rgb24_yuv420_std 0 2 (replicate 12 255) 6
      \<lparr>Y_plane = [0, 0, 0, 0], U_plane = [0], V_plane = [0]\<rparr> 2 1 BT601 = Some (Inl OutOfBounds) \<and>
   yuv420_rgb24_std 0 2 [0, 128, 255, 16] [0] [255] 2 1 (replicate 12 7) 6 BT601
     = Some (Inl OutOfBounds)"
    by blast
  have b: "rgb24_yuv420_block (RGB2YUV BT601) (replicate 12 255) 0 6 0 2 0 0
      \<lparr>Y_plane = [0, 0, 0, 0], U_plane = [0], V_plane = [0]\<rparr>
     = Inr \<lparr>Y_plane = [235, 235, 235, 235], U_plane = [128], V_plane = [128]\<rparr>"
    by code_simp
  have c: "rgb24_yuv420_std 2 0 (replicate 12 255) 6
      \<lparr>Y_plane = [0, 0, 0, 0], U_plane = [0], V_plane = [0]\<rparr> 2 1 BT601 = Some (Inl OutOfBounds)"
    by code_simp
  note Z1 = zero_dimension_behaviour [where width = 1 and height = 0 and T = BT601
      and RGB = "replicate 12 255" and RGB_stride = 6 and Y_stride = 2 and UV_stride = 1
      and s = "\<lparr>Y_plane = [0, 0, 0, 0], U_plane = [0], V_plane = [0]\<rparr>"
      and Y = "[0, 128, 255, 16]" and U = "[0]" and V = "[255]" and ?RGB0.0 = "replicate 12 7"
      and x = 0 and ?p1.0 = 0 and ?p2.0 = 6 and ?q1.0 = 0 and ?q2.0 = 2 and up = 0 and vp = 0]
  have h1: "(1 :: u32) = 1 \<and> (0 :: u32) = 0" by simp
  from Z1 h1 have d: "rgb24_yuv420_std 1 0 (replicate 12 255) 6
      \<lparr>Y_plane = [0, 0, 0, 0], U_plane = [0], V_plane = [0]\<rparr> 2 1 BT601 = None"
    "rgb24_yuv420_row (RGB2YUV BT601) 1 (replicate 12 255) 0 0 6 0 2 0 0
      \<lparr>Y_plane = [0, 0, 0, 0], U_plane = [0], V_plane = [0]\<rparr>
     = Inr \<lparr>Y_plane = [0, 0, 0, 0], U_plane = [0], V_plane = [0]\<rparr>"
    "\<forall>n. rgb24_yuv420_passes n (RGB2YUV BT601) 1 0 (replicate 12 255) 6 2 1 0
      \<lparr>Y_plane = [0, 0, 0, 0], U_plane = [0], V_plane = [0]\<rparr>
     = Inr (2 * of_nat n, \<lparr>Y_plane = [0, 0, 0, 0], U_plane = [0], V_plane = [0]\<rparr>)"
    "\<forall>n. yuv420_rgb24_passes n (YUV2RGB BT601) 1 0 [0, 128, 255, 16] [0] [255] 2 1 6 0
      (replicate 12 7) = Inr (2 * of_nat n, replicate 12 7)"
    by blast+
  from d(3) [rule_format, of 3] d(4) [rule_format, of 3]
  have e: "rgb24_yuv420_passes 3 (RGB2YUV BT601) 1 0 (replicate 12 255) 6 2 1 0
      \<lparr>Y_plane = [0, 0, 0, 0], U_plane = [0], V_plane = [0]\<rparr>
     = Inr (6, \<lparr>Y_plane = [0, 0, 0, 0], U_plane = [0], V_plane = [0]\<rparr>)"
    "yuv420_rgb24_passes 3 (YUV2RGB BT601) 1 0 [0, 128, 255, 16] [0] [255] 2 1 6 0 (replicate 12 7)
     = Inr (6, replicate 12 7)"
    by simp_all
  from a b c d(1,2) e show ?thesis by simp
qed

text \<open>The claim as first stated fails for a 0x1 image: the call returns normally and
  leaves the planes untouched, although the block at offset 0 lies inside the buffers
  and the loop body would have changed them.  For a 1x0 image the body is never
  executed either.\<close>

theorem zero_width_height_one_counterexample:
  "rgb24_yuv420_std 0 1 (replicate 12 255) 6
      \<lparr>Y_plane = [0, 0, 0, 0], U_plane = [0], V_plane = [0]\<rparr> 2 1 BT601
     = Some (Inr \<lparr>Y_plane = [0, 0, 0, 0], U_plane = [0], V_plane = [0]\<rparr>) \<and>
   yuv420_rgb24_std 0 1 [0, 128, 255, 16] [0] [255] 2 1 (replicate 12 7) 6 BT601
     = Some (Inr (replicate 12 7)) \<and>
   rgb24_yuv420_block (RGB2YUV BT601) (replicate 12 255) 0 6 0 2 0 0
      \<lparr>Y_plane = [0, 0, 0, 0], U_plane = [0], V_plane = [0]\<rparr>
     = Inr \<lparr>Y_plane = [235, 235, 235, 235], U_plane = [128], V_plane = [128]\<rparr> \<and>
   rgb24_yuv420_std 1 0 (replicate 12 255) 6
      \<lparr>Y_plane = [0, 0, 0, 0], U_plane = [0], V_plane = [0]\<rparr> 2 1 BT601 = None \<and>
   yuv420_rgb24_std 1 0 [0, 128, 255, 16] [0] [255] 2 1 (replicate 12 7) 6 BT601 = None"
proof -
  have a: "rgb24_yuv420_std 0 1 (replicate 12 255) 6
      \<lparr>Y_plane = [0, 0, 0, 0], U_plane = [0], V_plane = [0]\<rparr> 2 1 BT601
     = Some (Inr \<lparr>Y_plane = [0, 0, 0, 0], U_plane = [0], V_plane = [0]\<rparr>)"
    "yuv420_rgb24_std 0 1 [0, 128, 255, 16] [0] [255] 2 1 (replicate 12 7) 6 BT601
     = Some (Inr (replicate 12 7))"
    "rgb24_yuv420_block (RGB2YUV BT601) (replicate 12 255) 0 6 0 2 0 0
      \<lparr>Y_plane = [0, 0, 0, 0], U_plane = [0], V_plane = [0]\<rparr>
     = Inr \<lparr>Y_plane = [235, 235, 235, 235], U_plane = [128], V_plane = [128]\<rparr>"
    by code_simp+
  have b: "rgb24_yuv420_std 1 0 (replicate 12 255) 6
      \<lparr>Y_plane = [0, 0, 0, 0], U_plane = [0], V_plane = [0]\<rparr> 2 1 BT601 = None"
    "yuv420_rgb24_std 1 0 [0, 128, 255, 16] [0] [255] 2 1 (replicate 12 7) 6 BT601 = None"
    by (simp_all add: rgb24_yuv420_std_def yuv420_rgb24_std_def fwd_rows_width1_height0
        inv_rows_width1_height0 del: RGB2YUV.simps YUV2RGB.simps)
  from a b show ?thesis by simp
qed

section \<open>The vector kernels: one step\<close>
































section \<open>The scalar conversion returns on buffers that are large enough\<close>





section \<open>The vector loops\<close>















section \<open>The vector and the scalar chroma of one image\<close>










end
